theory Spec2Isabelle
  imports Complex_Main "HOL-Library.AList" "HOL-Library.Multiset"
begin

section \<open>Strings as the controllers use them\<close>

text \<open>
  JavaScript strings are modelled as \<open>string\<close>. Column names, candidate names and
  photo paths are ASCII in the source, so \<open>String.prototype.toLowerCase\<close> is modelled
  on the ASCII letters and leaves every other character as it is.
\<close>

definition toLowerChar :: "char \<Rightarrow> char" where
  "toLowerChar c =
     (case map_of (zip ''ABCDEFGHIJKLMNOPQRSTUVWXYZ'' ''abcdefghijklmnopqrstuvwxyz'') c of
        Some l \<Rightarrow> l
      | None \<Rightarrow> c)"

definition toLowerCase :: "string \<Rightarrow> string" where
  "toLowerCase s = map toLowerChar s"

text \<open>
  \<open>String.prototype.trim\<close> on the whitespace characters of the Latin-1 range, and the
  prefix, suffix and substring tests \<open>startsWith\<close>, \<open>endsWith\<close> and \<open>includes\<close>.
\<close>

definition isSpaceChar :: "char \<Rightarrow> bool" where
  "isSpaceChar c =
     (c \<in> set [CHR '' '', CHR 0x09, CHR 0x0A, CHR 0x0B, CHR 0x0C, CHR 0x0D, CHR 0xA0])"

definition trim :: "string \<Rightarrow> string" where
  "trim s = rev (dropWhile isSpaceChar (rev (dropWhile isSpaceChar s)))"

fun startsWith :: "string \<Rightarrow> string \<Rightarrow> bool" where
  "startsWith s [] = True"
| "startsWith [] (p # ps) = False"
| "startsWith (c # cs) (p # ps) = (c = p \<and> startsWith cs ps)"

definition endsWith :: "string \<Rightarrow> string \<Rightarrow> bool" where
  "endsWith s p = startsWith (rev s) (rev p)"

fun includesStr :: "string \<Rightarrow> string \<Rightarrow> bool" where
  "includesStr [] p = (p = [])"
| "includesStr (c # cs) p = (startsWith (c # cs) p \<or> includesStr cs p)"

section \<open>services/cacheService.js\<close>

text \<open>
  \<open>CacheService\<close>: a \<open>Map\<close> from the string form of the key to \<open>{value, expiresAt}\<close>,
  kept as an association list in insertion order so that \<open>this.cache.size\<close> is its length.
  Every method that reads \<open>Date.now()\<close> takes that reading as \<open>tnow\<close>. A \<open>ttl\<close> of
  \<open>None\<close> is the omitted argument, which defaults to \<open>this.defaultTTL\<close>. \<open>get\<close> returns
  \<open>None\<close> for \<open>null\<close>.
\<close>

record 'v cache_entry =
  entry_value :: 'v
  expiresAt :: int

record cache_metrics =
  hits :: nat
  misses :: nat
  sets :: nat
  deletes :: nat
  size :: nat
  lastCleanup :: "int option"

record 'v cache_service =
  cache_map :: "(string \<times> 'v cache_entry) list"
  defaultTTL :: int
  metrics :: cache_metrics

definition cache_new :: "int \<Rightarrow> 'v cache_service" where
  "cache_new ttl =
     \<lparr>cache_map = [], defaultTTL = ttl,
      metrics = \<lparr>hits = 0, misses = 0, sets = 0, deletes = 0, size = 0, lastCleanup = None\<rparr>\<rparr>"

definition cache_set ::
  "int \<Rightarrow> string \<Rightarrow> 'v \<Rightarrow> int option \<Rightarrow> 'v cache_service \<Rightarrow> 'v \<times> 'v cache_service" where
  "cache_set tnow k v ttl cs =
     (let expires = tnow + (case ttl of None \<Rightarrow> defaultTTL cs | Some t \<Rightarrow> t);
          m = AList.update k \<lparr>entry_value = v, expiresAt = expires\<rparr> (cache_map cs)
      in (v, cs\<lparr>cache_map := m,
                metrics := (metrics cs)\<lparr>sets := sets (metrics cs) + 1, size := length m\<rparr>\<rparr>))"

definition cache_get :: "int \<Rightarrow> string \<Rightarrow> 'v cache_service \<Rightarrow> 'v option \<times> 'v cache_service" where
  "cache_get tnow k cs =
     (case map_of (cache_map cs) k of
        None \<Rightarrow> (None, cs\<lparr>metrics := (metrics cs)\<lparr>misses := misses (metrics cs) + 1\<rparr>\<rparr>)
      | Some entry \<Rightarrow>
          if tnow > expiresAt entry then
            (let m = AList.delete k (cache_map cs)
             in (None,
                 cs\<lparr>cache_map := m,
                    metrics := (metrics cs)\<lparr>misses := misses (metrics cs) + 1,
                                             size := length m\<rparr>\<rparr>))
          else (Some (entry_value entry),
                cs\<lparr>metrics := (metrics cs)\<lparr>hits := hits (metrics cs) + 1\<rparr>\<rparr>))"

definition cache_has :: "int \<Rightarrow> string \<Rightarrow> 'v cache_service \<Rightarrow> bool" where
  "cache_has tnow k cs =
     (case map_of (cache_map cs) k of
        None \<Rightarrow> False
      | Some entry \<Rightarrow> tnow < expiresAt entry)"

definition cache_delete :: "string \<Rightarrow> 'v cache_service \<Rightarrow> bool \<times> 'v cache_service" where
  "cache_delete k cs =
     (case map_of (cache_map cs) k of
        None \<Rightarrow> (False, cs)
      | Some entry \<Rightarrow>
          (let m = AList.delete k (cache_map cs)
           in (True,
               cs\<lparr>cache_map := m,
                  metrics := (metrics cs)\<lparr>deletes := deletes (metrics cs) + 1,
                                           size := length m\<rparr>\<rparr>)))"

definition cache_cleanup :: "int \<Rightarrow> 'v cache_service \<Rightarrow> 'v cache_service" where
  "cache_cleanup tnow cs =
     (let m = filter (\<lambda>(k, entry). \<not> expiresAt entry \<le> tnow) (cache_map cs)
      in cs\<lparr>cache_map := m,
            metrics := (metrics cs)\<lparr>lastCleanup := Some tnow, size := length m\<rparr>\<rparr>)"

definition cache_clear :: "'v cache_service \<Rightarrow> 'v cache_service" where
  "cache_clear cs = cs\<lparr>cache_map := [], metrics := (metrics cs)\<lparr>size := 0\<rparr>\<rparr>"

section \<open>services/fotoService.js\<close>

subsection \<open>Path sanitisation\<close>

text \<open>
  The three regular expressions of \<open>sanitizeFotoPath\<close>, written out:
  \<open>/^https?:\/\//i\<close>, \<open>/^data:image\/[a-zA-Z]+;base64,/\<close> and
  \<open>/^[\w\-./]+\.(png|jpe?g|gif|webp)$/i\<close>. In the last one no extension contains a dot,
  so the extension is what follows the last dot of the string and the stem before that dot
  must be non-empty.
\<close>

definition isAsciiLetter :: "char \<Rightarrow> bool" where
  "isAsciiLetter c = (c \<in> set ''abcdefghijklmnopqrstuvwxyzABCDEFGHIJKLMNOPQRSTUVWXYZ'')"

definition isWordChar :: "char \<Rightarrow> bool" where
  "isWordChar c = (isAsciiLetter c \<or> c \<in> set ''0123456789_'')"

definition isHttpUrl :: "string \<Rightarrow> bool" where
  "isHttpUrl s =
     (startsWith (toLowerCase s) ''http://'' \<or> startsWith (toLowerCase s) ''https://'')"

definition isDataImage :: "string \<Rightarrow> bool" where
  "isDataImage s =
     (startsWith s ''data:image/'' \<and>
      (let rest = drop 11 s
       in takeWhile isAsciiLetter rest \<noteq> [] \<and>
          startsWith (dropWhile isAsciiLetter rest) '';base64,''))"

definition isImageFileName :: "string \<Rightarrow> bool" where
  "isImageFileName s =
     (let r = rev s;
          ext = rev (takeWhile (\<lambda>c. c \<noteq> CHR ''.'') r);
          stem = drop 1 (dropWhile (\<lambda>c. c \<noteq> CHR ''.'') r)
      in list_all (\<lambda>c. isWordChar c \<or> c \<in> set ''-./'') s \<and>
         CHR ''.'' \<in> set s \<and> stem \<noteq> [] \<and>
         toLowerCase ext \<in> set [''png'', ''jpg'', ''jpeg'', ''gif'', ''webp''])"

text \<open>
  What the module reads from its surroundings: the configuration constants \<open>CACHE_TTL\<close>,
  \<open>APP_BASE\<close> and \<open>PUBLIC_DIR\<close> (\<open>None\<close> when no public directory exists), whether
  \<open>new URL(s)\<close> accepts a string, \<open>path.join\<close> and \<open>fs.existsSync\<close>, and the photo
  query: \<open>queryFotos useCloud ids\<close> is what \<open>fetchFotosFromDb\<close> gets for a non-empty batch,
  either a thrown error (pool unavailable, query failure) or the rows
  \<open>(usuario_id, foto)\<close> of the record set together with the time the fetch took.
\<close>

datatype error = Error string

text \<open>\<open>String(err)\<close> of an \<open>Error\<close> with the given message.\<close>

fun errorString :: "error \<Rightarrow> string" where
  "errorString (Error msg) = (if msg = [] then ''Error'' else ''Error: '' @ msg)"

record foto_env =
  CACHE_TTL :: int
  APP_BASE :: string
  PUBLIC_DIR :: "string option"
  urlParses :: "string \<Rightarrow> bool"
  pathJoin :: "string \<Rightarrow> string \<Rightarrow> string"
  existsSync :: "string \<Rightarrow> bool"
  queryFotos :: "bool \<Rightarrow> string list \<Rightarrow> error + ((string \<times> string option) list \<times> int)"

definition stripLeading :: "string \<Rightarrow> string \<Rightarrow> string" where
  "stripLeading p s = (if startsWith s p then drop (length p) s else s)"

text \<open>\<open>toAbsoluteUrl(p)\<close>; the replacement \<open>/^\.?\//\<close> removes a leading \<open>./\<close> or \<open>/\<close>.\<close>

definition toAbsoluteUrl :: "foto_env \<Rightarrow> string \<Rightarrow> string" where
  "toAbsoluteUrl env p =
     (if p = [] then []
      else let s = trim p
           in if urlParses env s then s
              else if startsWith s ''/'' then APP_BASE env @ s
              else APP_BASE env @ ''/'' @
                     (if startsWith s ''./'' then drop 2 s else stripLeading ''/'' s))"

definition defaultFoto :: "foto_env \<Rightarrow> string" where
  "defaultFoto env = toAbsoluteUrl env ''/vieira-icone.jpg'' @ ''?v=1''"

text \<open>\<open>sanitizeFotoPath(raw)\<close>; \<open>None\<close> is a \<open>null\<close> or \<open>undefined\<close> argument.\<close>

definition sanitizeFotoPath :: "foto_env \<Rightarrow> string option \<Rightarrow> string" where
  "sanitizeFotoPath env raw =
     (let s = trim (case raw of None \<Rightarrow> [] | Some r \<Rightarrow> r)
      in if s = [] then defaultFoto env
         else let lower = toLowerCase s
              in if includesStr lower ''logo-vieira'' \<or> includesStr lower ''logo_vieira'' \<or>
                    endsWith lower ''logo-vieira.jpeg'' \<or> endsWith lower ''logo-vieira.jpg'' \<or>
                    endsWith lower ''logo-vieira.png''
                 then defaultFoto env
                 else if isHttpUrl s \<or> isDataImage s then s
                 else if startsWith s ''/'' then
                   (case PUBLIC_DIR env of
                      Some d \<Rightarrow>
                        if existsSync env (pathJoin env d (stripLeading ''/'' s))
                        then APP_BASE env @ s
                        else APP_BASE env @ s
                    | None \<Rightarrow> APP_BASE env @ s)
                 else if isImageFileName s then
                   (case PUBLIC_DIR env of
                      Some d \<Rightarrow>
                        if existsSync env (pathJoin env d (stripLeading ''./'' s))
                        then APP_BASE env @ ''/'' @ stripLeading ''./'' s
                        else toAbsoluteUrl env (''/'' @ stripLeading ''./'' s)
                    | None \<Rightarrow> toAbsoluteUrl env (''/'' @ stripLeading ''./'' s))
                 else defaultFoto env)"

subsection \<open>Bulk photo lookup\<close>

text \<open>
  The module state: the photo cache \<open>Map(usuario_id -> {fotoRaw, ts})\<close> and the metrics.
  Every record the module stores has a string \<open>fotoRaw\<close>, so the test
  \<open>rec.fotoRaw !== undefined\<close> always succeeds on a record that is present.
\<close>

record foto_rec =
  fotoRaw :: string
  rec_ts :: int

record foto_metrics =
  foto_hits :: nat
  foto_misses :: nat
  fetchCount :: nat
  fetchErrors :: nat
  lastFetchMs :: int
  totalFetchedIds :: nat

record foto_state =
  foto_cache :: "string \<rightharpoonup> foto_rec"
  foto_metrics :: foto_metrics

record foto_opts =
  useCache :: bool
  preferCloud :: bool

text \<open>
  The first loop of \<open>fetchFotosMap\<close>: each id is answered from the cache when its record
  is younger than \<open>CACHE_TTL\<close>, otherwise a stale record is deleted and the id is queued in
  \<open>toFetch\<close>. The triple is \<open>(outMap, toFetch, state)\<close>.
\<close>

fun consultCache ::
  "foto_env \<Rightarrow> foto_opts \<Rightarrow> int \<Rightarrow> string list \<Rightarrow>
   (string \<rightharpoonup> string) \<times> string list \<times> foto_state \<Rightarrow>
   (string \<rightharpoonup> string) \<times> string list \<times> foto_state" where
  "consultCache env opts tnow [] acc = acc"
| "consultCache env opts tnow (uid # ids) (outMap, toFetch, st) =
     (let miss = (\<lambda>st'. (outMap, toFetch @ [uid],
                    st'\<lparr>foto_metrics := (foto_metrics st')
                          \<lparr>foto_misses := foto_misses (foto_metrics st') + 1\<rparr>\<rparr>))
      in consultCache env opts tnow ids
           (if useCache opts then
              (case foto_cache st uid of
                 Some r \<Rightarrow>
                   if tnow - rec_ts r < CACHE_TTL env then
                     (outMap(uid \<mapsto> sanitizeFotoPath env (Some (fotoRaw r))), toFetch,
                      st\<lparr>foto_metrics := (foto_metrics st)
                           \<lparr>foto_hits := foto_hits (foto_metrics st) + 1\<rparr>\<rparr>)
                   else miss (st\<lparr>foto_cache := (foto_cache st)(uid := None)\<rparr>)
               | None \<Rightarrow> miss st)
            else miss st))"

text \<open>\<open>new Set(toFetch)\<close>: the ids in order of first occurrence.\<close>

definition toSet :: "string list \<Rightarrow> string list" where
  "toSet xs = foldl (\<lambda>acc x. if x \<in> set acc then acc else acc @ [x]) [] xs"

text \<open>\<open>for (i = 0; i < chunkIds.length; i += BATCH_SIZE)\<close> with \<open>slice(i, i + BATCH_SIZE)\<close>.\<close>

function batches :: "nat \<Rightarrow> 'a list \<Rightarrow> 'a list list" where
  "batches n xs = (if n = 0 \<or> xs = [] then [] else take n xs # batches n (drop n xs))"
  by pat_completeness auto
termination
  by (relation "measure (\<lambda>(n, xs). length xs)") auto

declare batches.simps [simp del]

definition BATCH_SIZE :: nat where
  "BATCH_SIZE = 300"

text \<open>
  \<open>fetchFotosFromDb(ids, useCloud)\<close>: an empty list is answered with an empty map without
  a query; otherwise the rows become a map, a later row for the same id overwriting an
  earlier one and a \<open>null\<close> photo stored as the empty string.
\<close>

definition rowsToMap :: "(string \<times> string option) list \<Rightarrow> (string \<rightharpoonup> string)" where
  "rowsToMap rows =
     foldl (\<lambda>m (k, f). m(k \<mapsto> (case f of None \<Rightarrow> [] | Some x \<Rightarrow> x))) Map.empty rows"

definition fetchFotosFromDb ::
  "foto_env \<Rightarrow> string list \<Rightarrow> bool \<Rightarrow> foto_metrics \<Rightarrow> (error + (string \<rightharpoonup> string)) \<times> foto_metrics" where
  "fetchFotosFromDb env ids useCloudFlag m =
     (if ids = [] then (Inr Map.empty, m)
      else (case queryFotos env useCloudFlag ids of
              Inl e \<Rightarrow> (Inl e, m\<lparr>fetchErrors := fetchErrors m + 1\<rparr>)
            | Inr (rows, elapsed) \<Rightarrow>
                (Inr (rowsToMap rows),
                 m\<lparr>fetchCount := fetchCount m + 1,
                   totalFetchedIds := totalFetchedIds m + length ids,
                   lastFetchMs := elapsed\<rparr>)))"

text \<open>
  The loops over the sources, the batches and the ids of a batch. The loop state is
  \<open>(outMap, remaining, state)\<close>; \<open>tnow\<close> is the clock reading stored with a cached record.
\<close>

fun storeBatch ::
  "foto_env \<Rightarrow> int \<Rightarrow> (string \<rightharpoonup> string) \<Rightarrow> string list \<Rightarrow>
   (string \<rightharpoonup> string) \<times> string list \<times> foto_state \<Rightarrow>
   (string \<rightharpoonup> string) \<times> string list \<times> foto_state" where
  "storeBatch env tnow mapDb [] acc = acc"
| "storeBatch env tnow mapDb (uid # batch) (outMap, remaining, st) =
     storeBatch env tnow mapDb batch
       (case mapDb uid of
          Some raw \<Rightarrow>
            (outMap(uid \<mapsto> sanitizeFotoPath env (Some raw)),
             removeAll uid remaining,
             st\<lparr>foto_cache := (foto_cache st)(uid \<mapsto> \<lparr>fotoRaw = raw, rec_ts = tnow\<rparr>)\<rparr>)
        | None \<Rightarrow> (outMap, remaining, st))"

fun fetchBatches ::
  "foto_env \<Rightarrow> int \<Rightarrow> bool \<Rightarrow> string list list \<Rightarrow>
   (string \<rightharpoonup> string) \<times> string list \<times> foto_state \<Rightarrow>
   (string \<rightharpoonup> string) \<times> string list \<times> foto_state" where
  "fetchBatches env tnow useCloudFlag [] acc = acc"
| "fetchBatches env tnow useCloudFlag (batch # rest) (outMap, remaining, st) =
     fetchBatches env tnow useCloudFlag rest
       (case fetchFotosFromDb env batch useCloudFlag (foto_metrics st) of
          (Inl e, m) \<Rightarrow> (outMap, remaining, st\<lparr>foto_metrics := m\<rparr>)
        | (Inr mapDb, m) \<Rightarrow>
            storeBatch env tnow mapDb batch (outMap, remaining, st\<lparr>foto_metrics := m\<rparr>))"

fun fetchSources ::
  "foto_env \<Rightarrow> int \<Rightarrow> bool list \<Rightarrow>
   (string \<rightharpoonup> string) \<times> string list \<times> foto_state \<Rightarrow>
   (string \<rightharpoonup> string) \<times> string list \<times> foto_state" where
  "fetchSources env tnow [] acc = acc"
| "fetchSources env tnow (useCloudFlag # order) (outMap, remaining, st) =
     (if remaining = [] then (outMap, remaining, st)
      else fetchSources env tnow order
             (fetchBatches env tnow useCloudFlag (batches BATCH_SIZE remaining)
                (outMap, remaining, st)))"

text \<open>The last loop: every id still in \<open>remaining\<close> gets the placeholder.\<close>

fun fallbackRemaining ::
  "foto_env \<Rightarrow> int \<Rightarrow> string list \<Rightarrow> (string \<rightharpoonup> string) \<times> foto_state \<Rightarrow>
   (string \<rightharpoonup> string) \<times> foto_state" where
  "fallbackRemaining env tnow [] acc = acc"
| "fallbackRemaining env tnow (uid # remaining) (outMap, st) =
     fallbackRemaining env tnow remaining
       (outMap(uid \<mapsto> sanitizeFotoPath env None),
        st\<lparr>foto_cache := (foto_cache st)(uid \<mapsto> \<lparr>fotoRaw = [], rec_ts = tnow\<rparr>)\<rparr>)"

text \<open>
  \<open>fetchFotosMap(ids, opts)\<close>, with the ids already in their string form. \<open>tnow\<close> is the
  clock when the cache is consulted and \<open>tlater\<close> the clock when fetched records are stored.
\<close>

definition fetchFotosMap ::
  "foto_env \<Rightarrow> foto_opts \<Rightarrow> int \<Rightarrow> int \<Rightarrow> string list \<Rightarrow> foto_state \<Rightarrow>
   (string \<rightharpoonup> string) \<times> foto_state" where
  "fetchFotosMap env opts tnow tlater ids st =
     (case consultCache env opts tnow ids (Map.empty, [], st) of
        (outMap, toFetch, st1) \<Rightarrow>
          if toFetch = [] then (outMap, st1)
          else
            (let fetchOrder = (if preferCloud opts then [True, False] else [False, True])
             in case fetchSources env tlater fetchOrder (outMap, toSet toFetch, st1) of
                  (outMap2, remaining, st2) \<Rightarrow>
                    fallbackRemaining env tlater remaining (outMap2, st2)))"

subsection \<open>Predicates used to state the photo lookup\<close>

text \<open>
  \<open>nonemptyVals\<close>: every url of a result map is a non-empty string.
  \<open>noStoredFoto\<close>: no successful photo query returns a row for the id (no stored photo,
  or every lookup fails). \<open>notFresh\<close>: the id is not answered from the photo cache
  (caching is off, or there is no record, or the record is \<open>CACHE_TTL\<close> old or older).
\<close>

definition nonemptyVals :: "(string \<rightharpoonup> string) \<Rightarrow> bool" where
  "nonemptyVals m = (\<forall>k v. m k = Some v \<longrightarrow> v \<noteq> [])"

definition noStoredFoto :: "foto_env \<Rightarrow> string \<Rightarrow> bool" where
  "noStoredFoto env uid =
     (\<forall>flag batch rows elapsed.
        queryFotos env flag batch = Inr (rows, elapsed) \<longrightarrow> uid \<notin> fst ` set rows)"

definition notFresh :: "foto_env \<Rightarrow> foto_opts \<Rightarrow> int \<Rightarrow> foto_state \<Rightarrow> string \<Rightarrow> bool" where
  "notFresh env opts tnow st uid =
     (useCache opts \<longrightarrow>
        (\<forall>r. foto_cache st uid = Some r \<longrightarrow> \<not> tnow - rec_ts r < CACHE_TTL env))"

section \<open>controllers/rankingController.js\<close>

subsection \<open>Data\<close>

text \<open>
  A ranking row \<open>{id, nome, equipe, foto, valorVendido, posicao, empresa}\<close>, a row of the
  \<open>colaboradores\<close> query with \<open>id_new\<close> already in its string form (\<open>String(v.id_new)\<close>),
  and the cache cell \<open>{data, ts, isFetching, fetchPromise}\<close> that the ranking and the
  company controllers both use. A promise is named by a number; amounts are numbers compared
  and subtracted exactly, as the comparator of the sort does.
\<close>

record ranking_row =
  row_id :: string
  row_nome :: string
  row_equipe :: string
  row_foto :: "string option"
  valorVendido :: real
  posicao :: nat
  row_empresa :: string

record vendedor =
  id_new :: string
  v_nome :: "string option"
  v_equipe :: "string option"
  v_empresa :: "string option"

record 'a cache_cell =
  cell_data :: "'a option"
  cell_ts :: int
  cell_isFetching :: bool
  cell_fetchPromise :: "nat option"

record 'b response =
  status :: nat
  body :: 'b

text \<open>\<open>res.json(x)\<close> answers with status 200.\<close>

definition json :: "'b \<Rightarrow> 'b response" where
  "json x = \<lparr>status = 200, body = x\<rparr>"

text \<open>\<open>x || d\<close> on a string that may be \<open>null\<close>: the empty string is falsy too.\<close>

definition orElse :: "string option \<Rightarrow> string \<Rightarrow> string" where
  "orElse x d = (case x of None \<Rightarrow> d | Some s \<Rightarrow> if s = [] then d else s)"

text \<open>
  The module state: \<open>rankingCacheMap\<close>, \<open>lastErrorMap\<close>, and the number of fetch promises
  that \<open>getRanking\<close> has created so far, which also names the next one.
\<close>

record ranking_state =
  rankingCacheMap :: "string \<rightharpoonup> ranking_row list cache_cell"
  lastErrorMap :: "string \<rightharpoonup> error"
  promisesStarted :: nat

text \<open>
  What one run of \<open>updateRanking\<close> reads from its surroundings: the constants of the
  module; the local pool, which the run asks for at most twice, \<open>getLocalPool env 0\<close> being
  the answer to \<open>updateRanking\<close> itself and \<open>getLocalPool env 1\<close> the answer to
  \<open>getRankingFromTable\<close> later in the same run (\<open>config/db.js\<close> connects again after a
  failed attempt, so the two answers need not agree; \<open>Inl\<close> is a rejection, \<open>Inr False\<close> a
  \<open>null\<close> pool); the \<open>colaboradores\<close> query; the sales of the day as
  \<open>getSalesTodayForVendedorIds\<close> returns them (the entries of its \<open>Map\<close> in insertion
  order); the photo lookup \<open>getFotosMap\<close>; \<open>fotoService.sanitizeFotoPath\<close> when the photo
  service was loaded; and the record set of the query on \<open>dbo.ranking_operador\<close> that
  \<open>getRankingFromTable\<close> sends.
\<close>

record ranking_env =
  DEFAULT_EMPRESA :: string
  CACHE_MS :: int
  getLocalPool :: "nat \<Rightarrow> error + bool"
  queryVendedores :: "string \<Rightarrow> error + vendedor list"
  getSalesTodayForVendedorIds :: "string list \<Rightarrow> error + (string \<times> real) list"
  getFotosMap :: "string list \<Rightarrow> error + (string \<rightharpoonup> string)"
  fotoServiceSanitize :: "(string \<Rightarrow> string) option"
  queryRankingTable :: "string \<Rightarrow> error + ranking_row list"

subsection \<open>Sorting and building the rows\<close>

text \<open>
  \<open>Array.prototype.sort(compare)\<close> is a stable sort; with a comparator that orders the
  elements consistently every stable sort returns the same list, here computed by insertion:
  an element goes before the first element it does not have to follow.
\<close>

fun insertSorted :: "('a \<Rightarrow> 'a \<Rightarrow> real) \<Rightarrow> 'a \<Rightarrow> 'a list \<Rightarrow> 'a list" where
  "insertSorted cmp x [] = [x]"
| "insertSorted cmp x (y # ys) =
     (if cmp x y \<le> 0 then x # y # ys else y # insertSorted cmp x ys)"

definition arraySort :: "('a \<Rightarrow> 'a \<Rightarrow> real) \<Rightarrow> 'a list \<Rightarrow> 'a list" where
  "arraySort cmp xs = foldr (insertSorted cmp) xs []"

text \<open>The comparator \<open>(a, b) => b.valorVendido - a.valorVendido\<close> on \<open>(id, valorVendido)\<close>.\<close>

definition byValorDesc :: "string \<times> real \<Rightarrow> string \<times> real \<Rightarrow> real" where
  "byValorDesc a b = snd b - snd a"

text \<open>\<open>new Map(vendedores.map(v => [String(v.id_new), v]))\<close>: a later row wins.\<close>

definition vendMap :: "vendedor list \<Rightarrow> (string \<rightharpoonup> vendedor)" where
  "vendMap vendedores = map_of (rev (map (\<lambda>v. (id_new v, v)) vendedores))"

definition buildRow ::
  "ranking_env \<Rightarrow> string \<Rightarrow> vendedor list \<Rightarrow> (string \<rightharpoonup> string) \<Rightarrow> nat \<times> (string \<times> real) \<Rightarrow>
   ranking_row" where
  "buildRow env key vendedores fotos ir =
     (case ir of (idx, (rid, valor)) \<Rightarrow>
        (let vend = vendMap vendedores rid;
             rawFoto = trim (case fotos rid of None \<Rightarrow> [] | Some f \<Rightarrow> f);
             foto = (case fotoServiceSanitize env of
                       Some sanitize \<Rightarrow> Some (sanitize rawFoto)
                     | None \<Rightarrow> (if rawFoto = [] then None else Some rawFoto))
         in \<lparr>row_id = rid,
             row_nome = orElse (case vend of None \<Rightarrow> None | Some v \<Rightarrow> v_nome v)
                          (''Vendedor N'' @ [CHR 0xE3] @ ''o Encontrado''),
             row_equipe = orElse (case vend of None \<Rightarrow> None | Some v \<Rightarrow> v_equipe v) ''N/A'',
             row_foto = foto,
             valorVendido = valor,
             posicao = idx + 1,
             row_empresa = orElse (case vend of None \<Rightarrow> None | Some v \<Rightarrow> v_empresa v) key\<rparr>))"

text \<open>
  Lines 274 to 305 of \<open>updateRanking\<close>: sort the entries of \<open>salesMap\<close>, keep the first
  five, look the photos up (a failure of the lookup leaves the photo map empty) and build the
  rows with their positions.
\<close>

definition topRows :: "(string \<times> real) list \<Rightarrow> (string \<times> real) list" where
  "topRows salesMap = take 5 (arraySort byValorDesc salesMap)"

definition buildRanking ::
  "ranking_env \<Rightarrow> string \<Rightarrow> vendedor list \<Rightarrow> (string \<times> real) list \<Rightarrow> ranking_row list" where
  "buildRanking env key vendedores salesMap =
     (let top = topRows salesMap;
          fotos = (case getFotosMap env (map fst top) of Inl e \<Rightarrow> Map.empty | Inr m \<Rightarrow> m)
      in map (buildRow env key vendedores fotos) (enumerate 0 top))"

subsection \<open>getRankingFromTable\<close>

text \<open>
  \<open>getRankingFromTable(empresa)\<close> asks for the local pool itself. Without a pool it
  returns \<open>[]\<close>, and so it does when the pool or the query throws: it catches every error.
\<close>

definition getRankingFromTable :: "ranking_env \<Rightarrow> string \<Rightarrow> ranking_row list" where
  "getRankingFromTable env empresa =
     (case getLocalPool env 1 of
        Inl e \<Rightarrow> []
      | Inr False \<Rightarrow> []
      | Inr True \<Rightarrow>
          (case queryRankingTable env empresa of
             Inl e \<Rightarrow> []
           | Inr recordset \<Rightarrow> recordset))"

subsection \<open>updateRanking\<close>

definition setRankingCache ::
  "string \<Rightarrow> ranking_row list \<Rightarrow> int \<Rightarrow> ranking_state \<Rightarrow> ranking_state" where
  "setRankingCache key rows tset st =
     st\<lparr>rankingCacheMap := (rankingCacheMap st)
          (key \<mapsto> \<lparr>cell_data = Some rows, cell_ts = tset, cell_isFetching = False,
                    cell_fetchPromise = None\<rparr>)\<rparr>"

text \<open>\<open>old && old.data\<close> of a cell that may be absent.\<close>

definition cellData :: "'a cache_cell option \<Rightarrow> 'a option" where
  "cellData c = (case c of None \<Rightarrow> None | Some cell \<Rightarrow> cell_data cell)"

text \<open>
  The \<open>try\<close> block of \<open>updateRanking\<close>. \<open>Inl\<close> is an exception that reaches the outer
  \<open>catch\<close>; a failure of the sales query is handled inside, by the inner \<open>catch\<close>. \<open>tset\<close>
  is the clock when the cache is written. Writing the rows to \<open>dbo.ranking_operador\<close> is
  started in the background and changes nothing of this state. The block waits for the
  pool and for its queries without touching the state, and a block that throws has not
  touched the state at all.
\<close>

definition updateRanking_try ::
  "ranking_env \<Rightarrow> string \<Rightarrow> int \<Rightarrow> ranking_state \<Rightarrow> error + (ranking_row list \<times> ranking_state)" where
  "updateRanking_try env key tset st =
     (case getLocalPool env 0 of
        Inl e \<Rightarrow> Inl e
      | Inr False \<Rightarrow> Inl (Error (''Pool LOCAL indispon'' @ [CHR 0xED] @ ''vel''))
      | Inr True \<Rightarrow>
          (case queryVendedores env key of
             Inl e \<Rightarrow> Inl e
           | Inr vendedores \<Rightarrow>
               if vendedores = [] then Inr ([], setRankingCache key [] tset st)
               else
                 (let vendedorIds = filter (\<lambda>i. i \<noteq> []) (map id_new vendedores)
                  in if vendedorIds = [] then Inr ([], setRankingCache key [] tset st)
                     else
                       (case getSalesTodayForVendedorIds env vendedorIds of
                          Inl e \<Rightarrow>
                            (let st1 = st\<lparr>lastErrorMap := (lastErrorMap st)(key \<mapsto> e)\<rparr>;
                                 persisted = getRankingFromTable env key
                             in if persisted \<noteq> [] then Inr (persisted, st1)
                                else (case cellData (rankingCacheMap st1 key) of
                                        Some d \<Rightarrow> Inr (d, st1)
                                      | None \<Rightarrow> Inr ([], st1)))
                        | Inr salesMap \<Rightarrow>
                            if salesMap = [] then Inr ([], setRankingCache key [] tset st)
                            else
                              (let result = buildRanking env key vendedores salesMap
                               in Inr (result, setRankingCache key result tset st))))))"

text \<open>The key is \<open>String(empresa || DEFAULT_EMPRESA)\<close>.\<close>

definition rankingKey :: "ranking_env \<Rightarrow> string \<Rightarrow> string" where
  "rankingKey env empresa = (if empresa = [] then DEFAULT_EMPRESA env else empresa)"

text \<open>
  The outer \<open>catch\<close> of \<open>updateRanking\<close> up to its \<open>await\<close>, from the state in which the
  error arrives: it records the error, sets \<open>isFetching = false\<close> on the cell of the key
  and, if the cell holds rows, returns them (\<open>Some\<close>). Otherwise (\<open>None\<close>) it goes on to
  wait for \<open>getRankingFromTable\<close>, and the state it leaves is the one that other requests
  find while it waits.
\<close>

definition updateRanking_catch ::
  "ranking_env \<Rightarrow> string \<Rightarrow> error \<Rightarrow> ranking_state \<Rightarrow> ranking_row list option \<times> ranking_state" where
  "updateRanking_catch env empresa err st =
     (let key = rankingKey env empresa;
          st1 = st\<lparr>lastErrorMap := (lastErrorMap st)(key \<mapsto> err)\<rparr>;
          st2 = (case rankingCacheMap st1 key of
                   None \<Rightarrow> st1
                 | Some c \<Rightarrow>
                     st1\<lparr>rankingCacheMap := (rankingCacheMap st1)
                           (key \<mapsto> c\<lparr>cell_isFetching := False\<rparr>)\<rparr>)
      in (cellData (rankingCacheMap st2 key), st2))"

text \<open>What the outer \<open>catch\<close> returns once \<open>getRankingFromTable\<close> has answered.\<close>

definition updateRanking_lastResort :: "ranking_env \<Rightarrow> string \<Rightarrow> ranking_row list" where
  "updateRanking_lastResort env empresa =
     (let persisted = getRankingFromTable env empresa
      in if persisted \<noteq> [] then persisted else [])"

text \<open>
  \<open>updateRanking(empresa)\<close> run from start to end with nothing else running in between:
  the \<open>try\<close> block and, when it throws, the two parts of the outer \<open>catch\<close>.
\<close>

definition updateRanking ::
  "ranking_env \<Rightarrow> string \<Rightarrow> int \<Rightarrow> ranking_state \<Rightarrow> ranking_row list \<times> ranking_state" where
  "updateRanking env empresa tset st =
     (case updateRanking_try env (rankingKey env empresa) tset st of
        Inr r \<Rightarrow> r
      | Inl err \<Rightarrow>
          (case updateRanking_catch env empresa err st of
             (Some d, st2) \<Rightarrow> (d, st2)
           | (None, st2) \<Rightarrow> (updateRanking_lastResort env empresa, st2)))"

subsection \<open>The handler getRanking\<close>

text \<open>
  \<open>getRanking\<close> runs in pieces between its \<open>await\<close>s. \<open>getRanking_enter\<close> is the part up
  to the first \<open>await\<close>: a fresh cache answers at once (\<open>Hit\<close>); a cell that is fetching
  makes the caller wait for the promise of the cell (\<open>Join\<close>, with the cell object the
  caller holds); otherwise the caller creates the fetch promise and stores it in a new cell
  (\<open>Start\<close>). \<open>empresaQ\<close> is \<open>req.query.empresa\<close>.
\<close>

datatype 'a entered = Hit 'a | Join nat "'a cache_cell" | Start nat

definition getRanking_enter ::
  "ranking_env \<Rightarrow> int \<Rightarrow> string option \<Rightarrow> ranking_state \<Rightarrow>
   ranking_row list entered \<times> ranking_state" where
  "getRanking_enter env tnow empresaQ st =
     (let key = orElse empresaQ (DEFAULT_EMPRESA env);
          cache = rankingCacheMap st key;
          fresh = (case cache of
                     None \<Rightarrow> None
                   | Some c \<Rightarrow>
                       (case cell_data c of
                          None \<Rightarrow> None
                        | Some d \<Rightarrow> if tnow - cell_ts c < CACHE_MS env then Some d else None));
          joined = (case cache of
                      None \<Rightarrow> None
                    | Some c \<Rightarrow>
                        (if cell_isFetching c
                         then (case cell_fetchPromise c of None \<Rightarrow> None | Some p \<Rightarrow> Some (p, c))
                         else None))
      in case fresh of
           Some d \<Rightarrow> (Hit d, st)
         | None \<Rightarrow>
             (case joined of
                Some (p, c) \<Rightarrow> (Join p c, st)
              | None \<Rightarrow>
                  (let p = promisesStarted st
                   in (Start p,
                       st\<lparr>rankingCacheMap := (rankingCacheMap st)
                            (key \<mapsto> \<lparr>cell_data = cellData cache,
                                      cell_ts = (case cache of None \<Rightarrow> 0 | Some c \<Rightarrow> cell_ts c),
                                      cell_isFetching = True,
                                      cell_fetchPromise = Some p\<rparr>),
                          promisesStarted := p + 1\<rparr>))))"

text \<open>
  The \<open>finally\<close> block of the fetch promise: it clears \<open>isFetching\<close> and \<open>fetchPromise\<close>
  on whatever cell the map holds for the key at that moment.
\<close>

definition getRanking_finally :: "string \<Rightarrow> ranking_state \<Rightarrow> ranking_state" where
  "getRanking_finally key st =
     (case rankingCacheMap st key of
        None \<Rightarrow> st
      | Some c \<Rightarrow>
          st\<lparr>rankingCacheMap := (rankingCacheMap st)
                (key \<mapsto> c\<lparr>cell_isFetching := False, cell_fetchPromise := None\<rparr>)\<rparr>)"

text \<open>
  The fetch promise when nothing else runs between its start and its end: \<open>updateRanking\<close>
  and then the \<open>finally\<close> block. \<open>updateRanking\<close> catches every error, so the promise is
  fulfilled. This is one run among those the code allows: the promise spans several
  \<open>await\<close>s, and a request served during one of them enters (\<open>getRanking_enter\<close>) on the
  state of that moment, which is the state before the fetch while the \<open>try\<close> block is
  waiting and the state that \<open>updateRanking_catch\<close> leaves while the outer \<open>catch\<close> is
  waiting. The calls of \<open>updateRanking\<close> by the scheduler and by
  \<open>POST /api/ranking/refresh\<close> run without any mark on the cell.
\<close>

definition getRanking_fetch ::
  "ranking_env \<Rightarrow> string \<Rightarrow> int \<Rightarrow> ranking_state \<Rightarrow>
   (error + ranking_row list) \<times> ranking_state" where
  "getRanking_fetch env key tset st =
     (case updateRanking env key tset st of
        (updated, st1) \<Rightarrow> (Inr updated, getRanking_finally key st1))"

text \<open>
  The answers once the promise has settled. An array is truthy even when empty, so
  \<open>out || cache.data || []\<close> is \<open>out\<close>. The caller that joined reads \<open>cache.data\<close> from the
  cell it holds, the caller that started the fetch from the cell then in the map.
\<close>

definition respondJoined ::
  "(error + ranking_row list) \<Rightarrow> ranking_row list cache_cell \<Rightarrow> ranking_row list response" where
  "respondJoined settled c =
     (case settled of
        Inr out \<Rightarrow> json out
      | Inl e \<Rightarrow> json (case cell_data c of None \<Rightarrow> [] | Some d \<Rightarrow> d))"

definition respondStarted ::
  "(error + ranking_row list) \<Rightarrow> string \<Rightarrow> ranking_state \<Rightarrow> ranking_row list response" where
  "respondStarted settled key st =
     (case settled of
        Inr out \<Rightarrow> json out
      | Inl e \<Rightarrow> json (case cellData (rankingCacheMap st key) of None \<Rightarrow> [] | Some d \<Rightarrow> d))"

text \<open>
  One request served from start to end with no other request in between. \<open>settledOf p\<close> is
  how a promise that an earlier request created settles, for the caller that joins it.
\<close>

definition getRanking ::
  "ranking_env \<Rightarrow> int \<Rightarrow> int \<Rightarrow> string option \<Rightarrow> (nat \<Rightarrow> error + ranking_row list) \<Rightarrow>
   ranking_state \<Rightarrow> ranking_row list response \<times> ranking_state" where
  "getRanking env tnow tset empresaQ settledOf st =
     (let key = orElse empresaQ (DEFAULT_EMPRESA env)
      in case getRanking_enter env tnow empresaQ st of
           (Hit d, st1) \<Rightarrow> (json d, st1)
         | (Join p c, st1) \<Rightarrow> (respondJoined (settledOf p) c, st1)
         | (Start p, st1) \<Rightarrow>
             (case getRanking_fetch env key tset st1 of
                (settled, st2) \<Rightarrow> (respondStarted settled key st2, st2)))"

section \<open>controllers/statusController.js\<close>

subsection \<open>Column resolution\<close>

text \<open>
  \<open>findFirst(colsSet, candidates)\<close>: the \<open>for ... of\<close> loop over the candidates, returning
  the candidate itself (not its lowercase form) at the first hit and \<open>null\<close> after the loop.
\<close>

fun findFirst :: "string set \<Rightarrow> string list \<Rightarrow> string option" where
  "findFirst colsSet [] = None"
| "findFirst colsSet (c # candidates) =
     (if toLowerCase c \<in> colsSet then Some c else findFirst colsSet candidates)"

subsection \<open>Internal state\<close>

text \<open>
  The module-level \<open>state\<close> object. \<open>failCount\<close> starts at 0 and is assigned only by
  \<open>resetBackoff\<close> and \<open>increaseBackoff\<close>, which keep it a natural number; times are
  milliseconds as \<open>Date.now()\<close> returns them.
\<close>

record operador =
  op_nome :: string
  op_equipe :: string
  op_descricaoStatus :: string
  op_tempoStatus :: int
  op_ramal :: "string option"
  op_usuario_id :: "string option"
  op_updated_at :: "string option"

record payload =
  operadores :: "operador list"
  horario_atual :: "int option"
  total :: "nat option"
  totalActive :: int
  logados :: int
  logados_total :: int

record status_cache =
  data :: "payload option"
  ts :: int

record status_state =
  cache :: status_cache
  isFetching :: bool
  failCount :: nat
  nextAllowedAt :: int
  lastError :: "string option"
  schedulerId :: "nat option"
  argusAuthFailed :: bool
  colsCache :: "string \<rightharpoonup> string set"

definition ms :: "int \<Rightarrow> int" where
  "ms s = s * 1000"

subsection \<open>Backoff\<close>

definition resetBackoff :: "status_state \<Rightarrow> status_state" where
  "resetBackoff st = st\<lparr>failCount := 0, nextAllowedAt := 0\<rparr>"

text \<open>\<open>increaseBackoff\<close> reads the clock once; \<open>tnow\<close> is that reading.\<close>

definition increaseBackoff :: "int \<Rightarrow> status_state \<Rightarrow> status_state" where
  "increaseBackoff tnow st =
     (let fc = min (failCount st + 1) 6;
          delaySec = min (15 * 2 ^ (fc - 1)) (300 :: int)
      in st\<lparr>failCount := fc, nextAllowedAt := tnow + ms delaySec\<rparr>)"

subsection \<open>Surroundings of the status controller\<close>

text \<open>
  The configuration constants read from the environment, and the two outside parties: the
  Argus HTTP API and the local database. \<open>argusGet ramal attempt\<close> is what
  \<open>axios.get\<close> produces for the request of the given attempt (\<open>validateStatus\<close> accepts
  every status, so only a network error or a timeout throws). Each query is either a thrown
  error or its record set. \<open>localPool\<close> is \<open>getLocalPool()\<close>, \<open>Inr False\<close> a \<open>null\<close> pool.
\<close>

record argus_status =
  as_descricaoStatus :: "string option"
  as_tempoStatus :: "int option"

record argus_body =
  codStatus :: "int option"
  statusOperador :: "argus_status option"

datatype http_result = NetworkError | Response int "argus_body option"

record argus_result =
  ar_ramal :: string
  ar_descricaoStatus :: string
  ar_tempoStatusSegundos :: int
  ar_raw :: argus_body

record ramal_row =
  id_argus :: string
  rr_id_new :: "string option"

record update_item =
  u_id_argus :: string
  u_descricaoStatus :: string
  u_tempoStatusSegundos :: int
  u_id_new :: "string option"

record status_row =
  r_nome :: "string option"
  r_equipe :: "string option"
  r_descricaoStatus :: "string option"
  r_tempoStatus :: "int option"
  r_id_argus :: "string option"
  r_id_new :: "string option"
  r_updated_at :: "(error + string) option"

record status_env =
  ARGUS_TOKEN :: "string option"
  ARGUS_RETRY :: int
  ARGUS_CONCURRENCY :: int
  STATUS_CACHE_MS :: int
  EMPRESA_FILTRO :: string
  TABELA_COLAB :: string
  TABELA_STATUS :: string
  LOG_EMPRESA :: string
  LOG_EQUIPES :: "string list"
  localPool :: "error + bool"
  queryColumns :: "string \<Rightarrow> string \<Rightarrow> error + string list"
  argusGet :: "string \<Rightarrow> nat \<Rightarrow> http_result"
  queryRamais :: "error + ramal_row list"
  runUpdate :: "update_item \<Rightarrow> error + nat"
  runInsert :: "update_item \<Rightarrow> error + unit"
  countAtivos :: "error + int option"
  queryStatus :: "error + status_row list"
  countLogados :: "error + int"

subsection \<open>The Argus client\<close>

text \<open>
  \<open>fetchArgusForRamal\<close> works on the controller state together with the number of HTTP
  requests sent so far. Its guards run before the first \<open>await\<close>; \<open>argusLoop\<close> is the
  retry loop from a given attempt on, one request per iteration. The pauses between
  attempts only let time pass.
\<close>

definition argusGuard :: "status_env \<Rightarrow> status_state \<Rightarrow> string \<Rightarrow> bool" where
  "argusGuard env st ramal =
     (\<not> (orElse (ARGUS_TOKEN env) [] = [] \<or> ramal = []) \<and> \<not> argusAuthFailed st)"

definition parseArgus :: "string \<Rightarrow> argus_body \<Rightarrow> argus_result option" where
  "parseArgus ramal d =
     (if (case codStatus d of None \<Rightarrow> False | Some c \<Rightarrow> c \<noteq> 0 \<and> c \<noteq> 1) then None
      else
        (let desc = (case statusOperador d of None \<Rightarrow> None | Some so \<Rightarrow> as_descricaoStatus so);
             tempo = (case statusOperador d of None \<Rightarrow> None | Some so \<Rightarrow> as_tempoStatus so)
         in Some \<lparr>ar_ramal = ramal,
                  ar_descricaoStatus = orElse desc [],
                  ar_tempoStatusSegundos = (case tempo of None \<Rightarrow> 0 | Some tms \<Rightarrow> tms) div 1000,
                  ar_raw = d\<rparr>))"

function argusLoop ::
  "status_env \<Rightarrow> string \<Rightarrow> nat \<Rightarrow> status_state \<times> nat \<Rightarrow>
   argus_result option \<times> status_state \<times> nat" where
  "argusLoop env ramal attempt (st, sent) =
     (if int attempt \<le> ARGUS_RETRY env then
        (case argusGet env ramal attempt of
           NetworkError \<Rightarrow>
             if int attempt < ARGUS_RETRY env
             then argusLoop env ramal (attempt + 1) (st, sent + 1)
             else (None, st, sent + 1)
         | Response code rdata \<Rightarrow>
             if code = 200 \<and> rdata \<noteq> None then
               (case rdata of None \<Rightarrow> (None, st, sent + 1)
                            | Some d \<Rightarrow> (parseArgus ramal d, st, sent + 1))
             else if code = 403 then (None, st\<lparr>argusAuthFailed := True\<rparr>, sent + 1)
             else if code = 400 then (None, st, sent + 1)
             else if code \<ge> 500 then
               (if int attempt < ARGUS_RETRY env
                then argusLoop env ramal (attempt + 1) (st, sent + 1)
                else (None, st, sent + 1))
             else argusLoop env ramal (attempt + 1) (st, sent + 1))
      else (None, st, sent))"
  by pat_completeness auto
termination
  by (relation "measure (\<lambda>(env, ramal, attempt, s). nat (ARGUS_RETRY env + 1 - int attempt))") auto

declare argusLoop.simps [simp del]

definition fetchArgusForRamal ::
  "status_env \<Rightarrow> string \<Rightarrow> status_state \<times> nat \<Rightarrow> argus_result option \<times> status_state \<times> nat" where
  "fetchArgusForRamal env ramal s =
     (case s of (st, sent) \<Rightarrow>
        if argusGuard env st ramal then argusLoop env ramal 0 (st, sent) else (None, st, sent))"

text \<open>A run of calls one after the other, each with its own ramal and its own responses.\<close>

fun fetchArgusSeq ::
  "status_env \<Rightarrow> (string \<times> (string \<Rightarrow> nat \<Rightarrow> http_result)) list \<Rightarrow> status_state \<times> nat \<Rightarrow>
   argus_result option list \<times> status_state \<times> nat" where
  "fetchArgusSeq env [] s = ([], s)"
| "fetchArgusSeq env ((ramal, responses) # calls) s =
     (case fetchArgusForRamal (env\<lparr>argusGet := responses\<rparr>) ramal s of
        (r, s1) \<Rightarrow> (case fetchArgusSeq env calls s1 of (rs, s2) \<Rightarrow> (r # rs, s2)))"

subsection \<open>Batches of Argus calls\<close>

text \<open>
  \<open>Array.prototype.slice(from, to)\<close>, where a negative index counts from the end.
\<close>

definition sliceIndex :: "'a list \<Rightarrow> int \<Rightarrow> nat" where
  "sliceIndex xs k =
     (if k < 0 then nat (max (int (length xs) + k) 0) else nat (min k (int (length xs))))"

definition slice :: "'a list \<Rightarrow> int \<Rightarrow> int \<Rightarrow> 'a list" where
  "slice xs i j = take (sliceIndex xs j - sliceIndex xs i) (drop (sliceIndex xs i) xs)"

text \<open>
  One chunk of \<open>processBatch\<close> as \<open>updateStatusOperadores\<close> calls it:
  \<open>Promise.all(chunk.map(fn))\<close> starts every call of the chunk before any response arrives,
  so all of them evaluate the guards of \<open>fetchArgusForRamal\<close> on the state at the start of
  the chunk; their loops then run, and an item whose call returns \<open>null\<close> is dropped.
\<close>

definition toUpdateItem :: "ramal_row \<Rightarrow> argus_result \<Rightarrow> update_item" where
  "toUpdateItem item arg =
     \<lparr>u_id_argus = id_argus item,
      u_descricaoStatus = ar_descricaoStatus arg,
      u_tempoStatusSegundos = ar_tempoStatusSegundos arg,
      u_id_new = (case rr_id_new item of None \<Rightarrow> None
                  | Some i \<Rightarrow> if i = [] then None else Some i)\<rparr>"

fun runChunk ::
  "status_env \<Rightarrow> status_state \<Rightarrow> ramal_row list \<Rightarrow> update_item list \<times> status_state \<times> nat \<Rightarrow>
   update_item list \<times> status_state \<times> nat" where
  "runChunk env st0 [] acc = acc"
| "runChunk env st0 (item # chunk) (out, st, sent) =
     runChunk env st0 chunk
       (if argusGuard env st0 (id_argus item) then
          (case argusLoop env (id_argus item) 0 (st, sent) of
             (None, st1, sent1) \<Rightarrow> (out, st1, sent1)
           | (Some arg, st1, sent1) \<Rightarrow> (out @ [toUpdateItem item arg], st1, sent1))
        else (out, st, sent))"

text \<open>
  The loop \<open>for (i = 0; i < items.length; i += concurrency)\<close>. With a concurrency that is
  not positive the index never passes the length, so the loop may not end: the result is an
  option, \<open>None\<close> when the call never returns.
\<close>

partial_function (option) processBatch ::
  "status_env \<Rightarrow> ramal_row list \<Rightarrow> int \<Rightarrow> update_item list \<times> status_state \<times> nat \<Rightarrow>
   (update_item list \<times> status_state \<times> nat) option" where
  "processBatch env items i acc =
     (if i < int (length items) then
        processBatch env items (i + ARGUS_CONCURRENCY env)
          (case acc of (out, st, sent) \<Rightarrow>
             runChunk env st (slice items i (i + ARGUS_CONCURRENCY env)) (out, st, sent))
      else Some acc)"

subsection \<open>Column detection\<close>

fun splitOn :: "char \<Rightarrow> string \<Rightarrow> string list" where
  "splitOn d [] = [[]]"
| "splitOn d (c # cs) =
     (if c = d then [] # splitOn d cs
      else (case splitOn d cs of [] \<Rightarrow> [[c]] | w # ws \<Rightarrow> (c # w) # ws))"

fun joinWith :: "string \<Rightarrow> string list \<Rightarrow> string" where
  "joinWith sep [] = []"
| "joinWith sep [w] = w"
| "joinWith sep (w # ws) = w @ sep @ joinWith sep ws"

definition parseTableName :: "string \<Rightarrow> string \<times> string" where
  "parseTableName fullName =
     (case splitOn (CHR ''.'') (filter (\<lambda>c. c \<noteq> CHR ''['' \<and> c \<noteq> CHR '']'') fullName) of
        [a, b] \<Rightarrow> (a, b)
      | [a] \<Rightarrow> (''dbo'', a)
      | a # rest \<Rightarrow> (a, joinWith ''_'' rest)
      | [] \<Rightarrow> ([], []))"

text \<open>
  \<open>detectColumns(pool, fullTableName)\<close> with a pool that is present: a cached set is
  returned as it is (an empty \<open>Set\<close> is truthy); a failed query caches the empty set.
\<close>

definition detectColumns ::
  "status_env \<Rightarrow> string \<Rightarrow> status_state \<Rightarrow> string set \<times> status_state" where
  "detectColumns env fullTableName st =
     (case colsCache st fullTableName of
        Some cols \<Rightarrow> (cols, st)
      | None \<Rightarrow>
          (case parseTableName fullTableName of
             (schema, table) \<Rightarrow>
               (case queryColumns env schema table of
                  Inr names \<Rightarrow>
                    (let cols = set (map toLowerCase names)
                     in (cols, st\<lparr>colsCache := (colsCache st)(fullTableName \<mapsto> cols)\<rparr>))
                | Inl e \<Rightarrow> ({}, st\<lparr>colsCache := (colsCache st)(fullTableName \<mapsto> {})\<rparr>))))"

subsection \<open>updateStatusOperadores\<close>

text \<open>
  The result object: \<open>{skipped: true, reason, nextTryInMs}\<close> or
  \<open>{updated, warning, error}\<close>.
\<close>

datatype update_outcome =
  Skipped string "int option"
| Updated nat "string option" "string option"

text \<open>
  The upsert loop: an \<open>UPDATE\<close> when there is something to set, else or when it touches no
  row an \<open>INSERT\<close>; an error of either statement is caught per item.
\<close>

fun upsertAll :: "status_env \<Rightarrow> (update_item \<Rightarrow> bool) \<Rightarrow> update_item list \<Rightarrow> nat \<Rightarrow> nat" where
  "upsertAll env hasSets [] updatedCount = updatedCount"
| "upsertAll env hasSets (u # updates) updatedCount =
     upsertAll env hasSets updates
       (let insert = (case runInsert env u of Inl e \<Rightarrow> updatedCount | Inr x \<Rightarrow> updatedCount + 1)
        in if hasSets u then
             (case runUpdate env u of
                Inl e \<Rightarrow> updatedCount
              | Inr rowsAffected \<Rightarrow>
                  if rowsAffected > 0 then updatedCount + rowsAffected else insert)
           else insert)"

text \<open>
  The \<open>try\<close> block, from the state in which \<open>isFetching\<close> is already set. The result is
  \<open>None\<close> when the block never finishes, else the outcome (\<open>Inl\<close> a thrown error) with the
  state and the number of requests sent at that point.
\<close>

definition updateStatus_try ::
  "status_env \<Rightarrow> status_state \<times> nat \<Rightarrow>
   ((error + update_outcome) \<times> status_state \<times> nat) option" where
  "updateStatus_try env s =
     (case s of (st, sent) \<Rightarrow>
      (case localPool env of
         Inl e \<Rightarrow> Some (Inl e, st, sent)
       | Inr False \<Rightarrow> Some (Inl (Error (''Pool DB indispon'' @ [CHR 0xED] @ ''vel'')), st, sent)
       | Inr True \<Rightarrow>
          (case detectColumns env (TABELA_COLAB env) st of (colabCols, st1) \<Rightarrow>
           (case detectColumns env (TABELA_STATUS env) st1 of (statusCols, st2) \<Rightarrow>
              if ''id_argus'' \<notin> colabCols \<and> ''ramal'' \<notin> colabCols
              then Some (Inr (Updated 0 None None), resetBackoff st2, sent)
              else
                (case queryRamais env of
                   Inl e \<Rightarrow> Some (Inl e, st2, sent)
                 | Inr ramais \<Rightarrow>
                     if ramais = [] then Some (Inr (Updated 0 None None), resetBackoff st2, sent)
                     else
                       (case processBatch env ramais 0 ([], st2, sent) of
                          None \<Rightarrow> None
                        | Some (updates, st3, sent3) \<Rightarrow>
                            if updates = []
                            then Some (Inr (Updated 0 None None), resetBackoff st3, sent3)
                            else
                              (let tempoDest =
                                     (if ''tempostatus'' \<in> statusCols then Some ''tempoStatus''
                                      else if ''tempo_status'' \<in> statusCols then Some ''tempo_status''
                                      else if ''tempo_status_segundos'' \<in> statusCols
                                      then Some ''tempo_status_segundos'' else None);
                                   descDest = findFirst statusCols
                                     [''descricaoStatus'', ''status_operador'', ''descricao_status'',
                                      ''status''];
                                   idArgusDest = findFirst statusCols [''id_argus'', ''ramal''];
                                   idNewDest = findFirst statusCols [''id_new'', ''usuario_id''];
                                   empresaDest = findFirst statusCols [''empresa''];
                                   updatedAtDest = findFirst statusCols
                                     [''updated_at'', ''updatedat'', ''updatedAt''];
                                   hasSets = (\<lambda>u. descDest \<noteq> None \<or> tempoDest \<noteq> None \<or>
                                                (idNewDest \<noteq> None \<and> u_id_new u \<noteq> None) \<or>
                                                empresaDest \<noteq> None \<or> updatedAtDest \<noteq> None)
                               in if idArgusDest = None
                                  then Some (Inr (Updated 0 (Some ''status table sem id_argus'') None),
                                             st3, sent3)
                                  else
                                    (let updatedCount = upsertAll env hasSets updates 0
                                     in Some (Inr (Updated updatedCount None None),
                                              resetBackoff (st3\<lparr>cache := \<lparr>data = None, ts = 0\<rparr>\<rparr>),
                                              sent3)))))))))"

text \<open>
  The guards in front of the \<open>try\<close> block: \<open>Some\<close> outcome when the call is skipped.
\<close>

definition updateStatus_guard :: "status_env \<Rightarrow> int \<Rightarrow> status_state \<Rightarrow> update_outcome option" where
  "updateStatus_guard env t st =
     (if t < nextAllowedAt st then Some (Skipped ''backoff'' (Some (nextAllowedAt st - t)))
      else if isFetching st then Some (Skipped ''in-flight'' None)
      else if orElse (ARGUS_TOKEN env) [] = [] then Some (Skipped ''no-token'' None)
      else if argusAuthFailed st then Some (Skipped ''argus-auth-failed'' None)
      else None)"

text \<open>
  The rest of the call once \<open>isFetching\<close> is set: the \<open>try\<close> block, the \<open>catch\<close> clause
  (\<open>tfail\<close> is the clock that \<open>increaseBackoff\<close> reads) and the \<open>finally\<close> block.
\<close>

definition updateStatus_run ::
  "status_env \<Rightarrow> int \<Rightarrow> status_state \<times> nat \<Rightarrow> (update_outcome \<times> status_state \<times> nat) option" where
  "updateStatus_run env tfail s =
     (case updateStatus_try env s of
        None \<Rightarrow> None
      | Some (Inr res, st1, sent1) \<Rightarrow> Some (res, st1\<lparr>isFetching := False\<rparr>, sent1)
      | Some (Inl (Error msg), st1, sent1) \<Rightarrow>
          (let st2 = increaseBackoff tfail (st1\<lparr>lastError := Some msg\<rparr>);
               st3 = (if includesStr (toLowerCase (errorString (Error msg))) ''403''
                      then st2\<lparr>argusAuthFailed := True\<rparr> else st2)
           in Some (Updated 0 None (Some (if msg = [] then errorString (Error msg) else msg)),
                    st3\<lparr>isFetching := False\<rparr>, sent1)))"

definition updateStatusOperadores ::
  "status_env \<Rightarrow> int \<Rightarrow> int \<Rightarrow> status_state \<times> nat \<Rightarrow>
   (update_outcome \<times> status_state \<times> nat) option" where
  "updateStatusOperadores env t tfail s =
     (case s of (st, sent) \<Rightarrow>
        (case updateStatus_guard env t st of
           Some skipped \<Rightarrow> Some (skipped, st, sent)
         | None \<Rightarrow> updateStatus_run env tfail (st\<lparr>isFetching := True\<rparr>, sent)))"


subsection \<open>The handler getStatusOperadores\<close>










section \<open>controllers/empresaController.js\<close>

text \<open>
  The module state is the cell \<open>empresasCache\<close>, the last error, and the number of fetch
  promises created so far. The surroundings are the constant \<open>CACHE_MS\<close>, the local pool
  and the rows of the \<open>SELECT DISTINCT empresa\<close> query.
\<close>

record empresas_state =
  empresasCache :: "string list cache_cell"
  emp_lastError :: "error option"
  emp_promises :: nat

record empresas_env =
  EMPRESA_CACHE_MS :: int
  emp_localPool :: "error + bool"
  queryEmpresas :: "error + string list"

text \<open>
  \<open>updateEmpresas()\<close>: on success the cell is replaced by a new object; the \<open>catch\<close>
  clause assigns \<open>isFetching = false\<close> on the cell that is there and returns its data.
\<close>

definition updateEmpresas ::
  "empresas_env \<Rightarrow> int \<Rightarrow> empresas_state \<Rightarrow> string list \<times> empresas_state" where
  "updateEmpresas env tset st =
     (let result = (case emp_localPool env of
                      Inl e \<Rightarrow> Inl e
                    | Inr False \<Rightarrow> Inl (Error (''Pool LOCAL indispon'' @ [CHR 0xED] @ ''vel''))
                    | Inr True \<Rightarrow> queryEmpresas env)
      in case result of
           Inr rows \<Rightarrow>
             (let empresas = filter (\<lambda>e. e \<noteq> []) (map trim rows)
              in (empresas,
                  st\<lparr>empresasCache := \<lparr>cell_data = Some empresas, cell_ts = tset,
                                         cell_isFetching = False, cell_fetchPromise = None\<rparr>\<rparr>))
         | Inl err \<Rightarrow>
             (let st1 = st\<lparr>emp_lastError := Some err,
                           empresasCache := (empresasCache st)\<lparr>cell_isFetching := False\<rparr>\<rparr>
              in (case cell_data (empresasCache st1) of None \<Rightarrow> [] | Some d \<Rightarrow> d, st1)))"

text \<open>
  \<open>getEmpresas\<close> up to its first \<open>await\<close>. A caller that starts the fetch sets
  \<open>isFetching\<close> and stores the promise of \<open>updateEmpresas()\<close> in the cell.
\<close>

definition getEmpresas_enter ::
  "empresas_env \<Rightarrow> int \<Rightarrow> empresas_state \<Rightarrow> string list entered \<times> empresas_state" where
  "getEmpresas_enter env tnow st =
     (let c = empresasCache st;
          fresh = (case cell_data c of
                     None \<Rightarrow> None
                   | Some d \<Rightarrow> if tnow - cell_ts c < EMPRESA_CACHE_MS env then Some d else None);
          joined = (if cell_isFetching c then cell_fetchPromise c else None)
      in case fresh of
           Some d \<Rightarrow> (Hit d, st)
         | None \<Rightarrow>
             (case joined of
                Some p \<Rightarrow> (Join p c, st)
              | None \<Rightarrow>
                  (let p = emp_promises st
                   in (Start p,
                       st\<lparr>empresasCache := c\<lparr>cell_isFetching := True,
                                                cell_fetchPromise := Some p\<rparr>,
                          emp_promises := p + 1\<rparr>))))"

text \<open>
  One request served from start to end. A caller that joins answers
  \<open>out || empresasCache.data || []\<close>, where a rejected promise counts as \<open>null\<close>.
\<close>

definition getEmpresas ::
  "empresas_env \<Rightarrow> int \<Rightarrow> int \<Rightarrow> (nat \<Rightarrow> error + string list) \<Rightarrow> empresas_state \<Rightarrow>
   string list response \<times> empresas_state" where
  "getEmpresas env tnow tset settledOf st =
     (case getEmpresas_enter env tnow st of
        (Hit d, st1) \<Rightarrow> (json d, st1)
      | (Join p c, st1) \<Rightarrow>
          (case settledOf p of
             Inr out \<Rightarrow> (json out, st1)
           | Inl e \<Rightarrow>
               (json (case cell_data (empresasCache st1) of None \<Rightarrow> [] | Some d \<Rightarrow> d), st1))
      | (Start p, st1) \<Rightarrow>
          (case updateEmpresas env tset st1 of (payload, st2) \<Rightarrow> (json payload, st2)))"

text \<open>
  A cell is coherent when \<open>isFetching\<close> is true exactly when \<open>fetchPromise\<close> is not
  \<open>null\<close>.
\<close>

definition coherent :: "'a cache_cell \<Rightarrow> bool" where
  "coherent c = (cell_isFetching c \<longleftrightarrow> cell_fetchPromise c \<noteq> None)"

section \<open>services/argusService.js\<close>

text \<open>
  The module state: \<open>isFetching\<close>, the queue of waiting callers (each waiter named by a
  number), the metrics, and the shared cache service under the key \<open>argus:status\<close>. A
  result is \<open>{data, cached, timestamp}\<close>.
\<close>

record 'd argus_data =
  ad_data :: 'd
  ad_cached :: bool
  ad_timestamp :: int

record argus_metrics =
  totalRequests :: nat
  totalErrors :: nat
  lastDurationMs :: int
  am_lastError :: "string option"
  lastSuccess :: "int option"
  cachedHits :: nat
  queuedWaits :: nat

record 'd argus_service =
  svc_isFetching :: bool
  svc_queue :: "nat list"
  svc_waiters :: nat
  svc_metrics :: argus_metrics
  svc_cache :: "'d cache_service"

definition CACHE_KEY :: string where
  "CACHE_KEY = ''argus:status''"

text \<open>\<open>getCachedData()\<close> at clock \<open>tnow\<close>.\<close>

definition getCachedData ::
  "int \<Rightarrow> 'd argus_service \<Rightarrow> 'd argus_data option \<times> 'd argus_service" where
  "getCachedData tnow st =
     (case cache_get tnow CACHE_KEY (svc_cache st) of
        (None, cs) \<Rightarrow> (None, st\<lparr>svc_cache := cs\<rparr>)
      | (Some d, cs) \<Rightarrow>
          (Some \<lparr>ad_data = d, ad_cached = True, ad_timestamp = tnow\<rparr>,
           st\<lparr>svc_cache := cs,
              svc_metrics := (svc_metrics st)\<lparr>cachedHits := cachedHits (svc_metrics st) + 1\<rparr>\<rparr>))"

text \<open>
  \<open>fetchArgusData(force)\<close> up to its first \<open>await\<close>: answered from the cache
  (\<open>Cached\<close>), queued behind the fetch in flight (\<open>Queued\<close>, with the number of the
  waiter), or starting the request itself (\<open>Requesting\<close>).
\<close>

datatype 'd argus_entered = Cached "'d argus_data" | Queued nat | Requesting

definition fetchArgusData_enter ::
  "bool \<Rightarrow> int \<Rightarrow> 'd argus_service \<Rightarrow> 'd argus_entered \<times> 'd argus_service" where
  "fetchArgusData_enter force tnow st =
     (case getCachedData tnow st of
        (cachedData, st1) \<Rightarrow>
          (case (if force then None else cachedData) of
             Some c \<Rightarrow> (Cached c, st1)
           | None \<Rightarrow>
               if svc_isFetching st1 then
                 (let w = svc_waiters st1
                  in (Queued w,
                      st1\<lparr>svc_queue := svc_queue st1 @ [w], svc_waiters := w + 1,
                          svc_metrics := (svc_metrics st1)
                            \<lparr>queuedWaits := queuedWaits (svc_metrics st1) + 1\<rparr>\<rparr>))
               else (Requesting, st1\<lparr>svc_isFetching := True\<rparr>)))"

text \<open>
  \<open>requestArgusData()\<close>: the \<open>while\<close> loop over the attempts, entered with
  \<open>attempt = 0\<close>. \<open>responses k\<close> is what attempt number \<open>k + 1\<close> gets, \<open>Inl\<close> when it
  throws (network error, empty response, a \<open>codStatus\<close> other than 1). The result is the
  value the promise settles with: \<open>Inr None\<close> is \<open>undefined\<close>, returned when the loop body
  never runs. \<open>tdone\<close> is the clock when an attempt succeeds.
\<close>

function requestArgusData ::
  "int \<Rightarrow> int \<Rightarrow> int \<Rightarrow> int \<Rightarrow> nat \<Rightarrow> (nat \<Rightarrow> error + 'd) \<Rightarrow> 'd argus_service \<Rightarrow>
   (error + 'd argus_data option) \<times> 'd argus_service" where
  "requestArgusData maxRetries cacheDuration tstart tdone attempt responses st =
     (if int attempt < maxRetries then
        (let st1 = st\<lparr>svc_metrics := (svc_metrics st)
                        \<lparr>totalRequests := totalRequests (svc_metrics st) + 1\<rparr>\<rparr>
         in case responses attempt of
              Inr d \<Rightarrow>
                (Inr (Some \<lparr>ad_data = d, ad_cached = False, ad_timestamp = tdone\<rparr>),
                 st1\<lparr>svc_cache := snd (cache_set tdone CACHE_KEY d (Some cacheDuration)
                                           (svc_cache st1)),
                     svc_metrics := (svc_metrics st1)
                       \<lparr>lastDurationMs := tdone - tstart, lastSuccess := Some tdone,
                        am_lastError := None\<rparr>\<rparr>)
            | Inl (Error msg) \<Rightarrow>
                (let st2 = st1\<lparr>svc_metrics := (svc_metrics st1)
                                \<lparr>totalErrors := totalErrors (svc_metrics st1) + 1,
                                 am_lastError := Some msg\<rparr>\<rparr>
                 in if int (attempt + 1) < maxRetries
                    then requestArgusData maxRetries cacheDuration tstart tdone (attempt + 1)
                           responses st2
                    else (Inl (Error msg), st2)))
      else (Inr None, st))"
  by pat_completeness auto
termination
  by (relation "measure (\<lambda>(maxRetries, cacheDuration, tstart, tdone, attempt, responses, st).
                   nat (maxRetries - int attempt))") auto

declare requestArgusData.simps [simp del]

text \<open>
  The request of the caller that started it settles: \<open>resolveQueue\<close> hands the result, or
  the error, to every waiter in the queue and empties it, and the \<open>finally\<close> block clears
  \<open>isFetching\<close>. The result is what the starter gets, what each waiter gets, and the state.
\<close>

definition fetchArgusData_settle ::
  "(error + 'd argus_data option) \<Rightarrow> 'd argus_service \<Rightarrow>
   (error + 'd argus_data option) \<times> (nat \<times> (error + 'd argus_data option)) list \<times> 'd argus_service" where
  "fetchArgusData_settle settled st =
     (settled, map (\<lambda>w. (w, settled)) (svc_queue st),
      st\<lparr>svc_queue := [], svc_isFetching := False\<rparr>)"

text \<open>Callers arriving one after the other, each with its \<open>force\<close> flag and its clock.\<close>

fun enterAllArgus ::
  "(bool \<times> int) list \<Rightarrow> 'd argus_service \<Rightarrow> 'd argus_entered list \<times> 'd argus_service" where
  "enterAllArgus [] st = ([], st)"
| "enterAllArgus ((force, tnow) # callers) st =
     (case fetchArgusData_enter force tnow st of
        (e, st1) \<Rightarrow> (case enterAllArgus callers st1 of (es, st2) \<Rightarrow> (e # es, st2)))"

fun enterAllRanking ::
  "ranking_env \<Rightarrow> (int \<times> string option) list \<Rightarrow> ranking_state \<Rightarrow>
   ranking_row list entered list \<times> ranking_state" where
  "enterAllRanking env [] st = ([], st)"
| "enterAllRanking env ((tnow, empresaQ) # callers) st =
     (case getRanking_enter env tnow empresaQ st of
        (e, st1) \<Rightarrow> (case enterAllRanking env callers st1 of (es, st2) \<Rightarrow> (e # es, st2)))"

section \<open>Concrete configurations\<close>

text \<open>
  Small configurations on which the theorems below are instantiated: a photo service whose
  cloud pool is down and whose local table stores a photo for user 7 only, and a ranking
  with the sale totals A: 100.00, B: 250.50, C: 250.50.
\<close>

definition demoFotoEnv :: foto_env where
  "demoFotoEnv =
     \<lparr>CACHE_TTL = 15000, APP_BASE = ''http://localhost:8003'', PUBLIC_DIR = None,
      urlParses = isHttpUrl, pathJoin = (\<lambda>d f. d @ ''/'' @ f), existsSync = (\<lambda>f. False),
      queryFotos = (\<lambda>useCloudFlag ids.
         if useCloudFlag then Inl (Error ''Pool CLOUD indisponivel'')
         else Inr ([(''7'', Some ''/fotos/7.png'')], 3))\<rparr>"

definition emptyFotoState :: foto_state where
  "emptyFotoState =
     \<lparr>foto_cache = Map.empty,
      foto_metrics = \<lparr>foto_hits = 0, foto_misses = 0, fetchCount = 0, fetchErrors = 0,
                      lastFetchMs = 0, totalFetchedIds = 0\<rparr>\<rparr>"

definition demoRankingEnv :: ranking_env where
  "demoRankingEnv =
     \<lparr>DEFAULT_EMPRESA = ''VIEIRACRED'', CACHE_MS = 15000,
      getLocalPool = (\<lambda>n. Inr True),
      queryVendedores = (\<lambda>k. Inr [\<lparr>id_new = ''A'', v_nome = Some ''Ana'', v_equipe = Some ''E1'', v_empresa = None\<rparr>,
                                   \<lparr>id_new = ''B'', v_nome = Some ''Bia'', v_equipe = None, v_empresa = None\<rparr>,
                                   \<lparr>id_new = ''C'', v_nome = None, v_equipe = None, v_empresa = None\<rparr>]),
      getSalesTodayForVendedorIds = (\<lambda>ids. Inr [(''A'', 100), (''B'', 250.5), (''C'', 250.5)]),
      getFotosMap = (\<lambda>ids. Inr Map.empty),
      fotoServiceSanitize = None,
      queryRankingTable = (\<lambda>k. Inr [])\<rparr>"

definition emptyRankingState :: ranking_state where
  "emptyRankingState = \<lparr>rankingCacheMap = Map.empty, lastErrorMap = Map.empty, promisesStarted = 0\<rparr>"

definition is403 :: "http_result \<Rightarrow> bool" where
  "is403 r = (case r of NetworkError \<Rightarrow> False | Response code rdata \<Rightarrow> code = 403)"

definition initialStatusState :: status_state where
  "initialStatusState =
     \<lparr>cache = \<lparr>data = None, ts = 0\<rparr>, isFetching = False, failCount = 0, nextAllowedAt = 0,
      lastError = None, schedulerId = None, argusAuthFailed = False, colsCache = Map.empty\<rparr>"

definition demoStatusEnv :: status_env where
  "demoStatusEnv =
     \<lparr>ARGUS_TOKEN = Some ''token'', ARGUS_RETRY = 2, ARGUS_CONCURRENCY = 6,
      STATUS_CACHE_MS = 15000, EMPRESA_FILTRO = ''VIEIRACRED'',
      TABELA_COLAB = ''dbo.colaboradores'', TABELA_STATUS = ''dbo.status_operador'',
      LOG_EMPRESA = ''VIEIRACRED'', LOG_EQUIPES = [],
      localPool = Inl (Error ''connect ETIMEDOUT''),
      queryColumns = (\<lambda>schema table. Inr [''id_argus'', ''Nome'', ''empresa'']),
      argusGet = (\<lambda>ramal attempt. if attempt = 0 then Response 500 None else Response 403 None),
      queryRamais = Inr [\<lparr>id_argus = ''1001'', rr_id_new = Some ''7''\<rparr>],
      runUpdate = (\<lambda>u. Inr 1), runInsert = (\<lambda>u. Inr ()),
      countAtivos = Inr (Some 10), queryStatus = Inr [], countLogados = Inr 0\<rparr>"

definition okResponses :: "string \<Rightarrow> nat \<Rightarrow> http_result" where
  "okResponses ramal attempt =
     Response 200 (Some \<lparr>codStatus = Some 1,
        statusOperador = Some \<lparr>as_descricaoStatus = Some ''Livre'', as_tempoStatus = Some 5000\<rparr>\<rparr>)"

definition stuckStatusEnv :: status_env where
  "stuckStatusEnv = demoStatusEnv\<lparr>ARGUS_CONCURRENCY := 0, localPool := Inr True\<rparr>"

definition idle :: "'a cache_cell \<Rightarrow> bool" where
  "idle c = (\<not> cell_isFetching c \<and> cell_fetchPromise c = None)"

definition initialEmpresasState :: empresas_state where
  "initialEmpresasState =
     \<lparr>empresasCache = \<lparr>cell_data = None, cell_ts = 0, cell_isFetching = False,
                        cell_fetchPromise = None\<rparr>,
      emp_lastError = None, emp_promises = 0\<rparr>"

definition downEmpresasEnv :: empresas_env where
  "downEmpresasEnv =
     \<lparr>EMPRESA_CACHE_MS = 60000, emp_localPool = Inr False, queryEmpresas = Inr []\<rparr>"

definition rejectedEmpresasEnv :: empresas_env where
  "rejectedEmpresasEnv =
     \<lparr>EMPRESA_CACHE_MS = 60000, emp_localPool = Inl (Error ''connect ETIMEDOUT''),
      queryEmpresas = Inr []\<rparr>"





definition rankingFresh :: "ranking_env \<Rightarrow> int \<Rightarrow> ranking_state \<Rightarrow> string \<Rightarrow> bool" where
  "rankingFresh env tnow st key =
     (case rankingCacheMap st key of
        None \<Rightarrow> False
      | Some c \<Rightarrow> cell_data c \<noteq> None \<and> tnow - cell_ts c < CACHE_MS env)"


definition persistedRow :: ranking_row where
  "persistedRow =
     \<lparr>row_id = ''B'', row_nome = ''Bia'', row_equipe = ''N/A'', row_foto = None,
      valorVendido = 250.5, posicao = 1, row_empresa = ''VIEIRACRED''\<rparr>"



definition queryTimeout :: error where
  "queryTimeout = Error ''Timeout: Request failed to complete in 15000ms''"

definition vendedoresDownEnv :: ranking_env where
  "vendedoresDownEnv =
     demoRankingEnv\<lparr>queryVendedores := (\<lambda>k. Inl queryTimeout),
                    queryRankingTable := (\<lambda>k. Inr [persistedRow])\<rparr>"

definition recoveredEnv :: ranking_env where
  "recoveredEnv = demoRankingEnv\<lparr>queryRankingTable := (\<lambda>k. Inr [persistedRow])\<rparr>"



definition argusCacheMiss :: "int \<Rightarrow> 'd argus_service \<Rightarrow> bool" where
  "argusCacheMiss tnow st =
     (case map_of (cache_map (svc_cache st)) CACHE_KEY of
        None \<Rightarrow> True
      | Some entry \<Rightarrow> tnow > expiresAt entry)"

definition emptyMetrics :: argus_metrics where
  "emptyMetrics =
     \<lparr>totalRequests = 0, totalErrors = 0, lastDurationMs = 0, am_lastError = None,
      lastSuccess = None, cachedHits = 0, queuedWaits = 0\<rparr>"

definition idleArgus :: "nat argus_service" where
  "idleArgus =
     \<lparr>svc_isFetching = False, svc_queue = [], svc_waiters = 0, svc_metrics = emptyMetrics,
      svc_cache = cache_new 60000\<rparr>"

definition freshIdleArgus :: "nat argus_service" where
  "freshIdleArgus = idleArgus\<lparr>svc_cache := snd (cache_set 0 CACHE_KEY 1 (Some 15000) (cache_new 60000))\<rparr>"

definition warnStatusEnv :: status_env where
  "warnStatusEnv =
     demoStatusEnv\<lparr>localPool := Inr True, argusGet := okResponses,
       queryColumns := (\<lambda>schema table. if table = ''status_operador'' then Inr [''nome'']
                                        else Inr [''id_argus''])\<rparr>"

definition backedOffState :: status_state where
  "backedOffState = initialStatusState\<lparr>isFetching := True, failCount := 2, nextAllowedAt := 30500\<rparr>"

definition quietStatusEnv :: status_env where
  "quietStatusEnv = demoStatusEnv\<lparr>localPool := Inr True, queryRamais := Inr []\<rparr>"

text \<open>
  The states of one run of the ranking handler on the key \<open>VIEIRACRED\<close>, from an empty
  cache: after a first request has started fetch promise 0; after the outer \<open>catch\<close> of
  that fetch has reached its \<open>await\<close>; after a second request has started fetch promise
  1; after the \<open>finally\<close> block of promise 0 has run; and after a third request has
  started fetch promise 2.
\<close>

definition firstStarted :: ranking_state where
  "firstStarted =
     \<lparr>rankingCacheMap = [''VIEIRACRED'' \<mapsto>
         \<lparr>cell_data = None, cell_ts = 0, cell_isFetching = True, cell_fetchPromise = Some 0\<rparr>],
      lastErrorMap = Map.empty, promisesStarted = 1\<rparr>"

definition firstCaught :: ranking_state where
  "firstCaught =
     \<lparr>rankingCacheMap = [''VIEIRACRED'' \<mapsto>
         \<lparr>cell_data = None, cell_ts = 0, cell_isFetching = False, cell_fetchPromise = Some 0\<rparr>],
      lastErrorMap = [''VIEIRACRED'' \<mapsto> queryTimeout], promisesStarted = 1\<rparr>"

definition secondStarted :: ranking_state where
  "secondStarted =
     \<lparr>rankingCacheMap = [''VIEIRACRED'' \<mapsto>
         \<lparr>cell_data = None, cell_ts = 0, cell_isFetching = True, cell_fetchPromise = Some 1\<rparr>],
      lastErrorMap = [''VIEIRACRED'' \<mapsto> queryTimeout], promisesStarted = 2\<rparr>"

definition secondUnmarked :: ranking_state where
  "secondUnmarked =
     \<lparr>rankingCacheMap = [''VIEIRACRED'' \<mapsto>
         \<lparr>cell_data = None, cell_ts = 0, cell_isFetching = False, cell_fetchPromise = None\<rparr>],
      lastErrorMap = [''VIEIRACRED'' \<mapsto> queryTimeout], promisesStarted = 2\<rparr>"

definition thirdStarted :: ranking_state where
  "thirdStarted =
     \<lparr>rankingCacheMap = [''VIEIRACRED'' \<mapsto>
         \<lparr>cell_data = None, cell_ts = 0, cell_isFetching = True, cell_fetchPromise = Some 2\<rparr>],
      lastErrorMap = [''VIEIRACRED'' \<mapsto> queryTimeout], promisesStarted = 3\<rparr>"

section \<open>Column resolution: first match in priority order\<close>

lemma findFirst_None_iff:
  "findFirst colsSet candidates = None \<longleftrightarrow> (\<forall>c \<in> set candidates. toLowerCase c \<notin> colsSet)"
  by (induction candidates) auto

lemma findFirst_Some_iff:
  "findFirst colsSet candidates = Some c \<longleftrightarrow>
     (\<exists>i < length candidates. candidates ! i = c \<and> toLowerCase c \<in> colsSet \<and>
        (\<forall>j < i. toLowerCase (candidates ! j) \<notin> colsSet))"
proof (induction candidates)
  case Nil
  show ?case by simp
next
  case (Cons a candidates)
  show ?case
  proof (cases "toLowerCase a \<in> colsSet")
    case True
    have "(\<exists>i < length (a # candidates). (a # candidates) ! i = c \<and> toLowerCase c \<in> colsSet \<and>
            (\<forall>j < i. toLowerCase ((a # candidates) ! j) \<notin> colsSet)) \<longleftrightarrow> a = c"
    proof
      assume "\<exists>i < length (a # candidates). (a # candidates) ! i = c \<and> toLowerCase c \<in> colsSet \<and>
            (\<forall>j < i. toLowerCase ((a # candidates) ! j) \<notin> colsSet)"
      then obtain i where i: "(a # candidates) ! i = c"
        and least: "\<forall>j < i. toLowerCase ((a # candidates) ! j) \<notin> colsSet"
        by blast
      have "i = 0"
      proof (rule ccontr)
        assume "i \<noteq> 0"
        then have "0 < i" by simp
        with least have "toLowerCase ((a # candidates) ! 0) \<notin> colsSet" by blast
        with True show False by simp
      qed
      with i show "a = c" by simp
    next
      assume "a = c"
      with True show "\<exists>i < length (a # candidates). (a # candidates) ! i = c \<and>
            toLowerCase c \<in> colsSet \<and> (\<forall>j < i. toLowerCase ((a # candidates) ! j) \<notin> colsSet)"
        by (intro exI [of _ 0]) simp
    qed
    with True show ?thesis by simp
  next
    case False
    have "(\<exists>i < length (a # candidates). (a # candidates) ! i = c \<and> toLowerCase c \<in> colsSet \<and>
            (\<forall>j < i. toLowerCase ((a # candidates) ! j) \<notin> colsSet)) \<longleftrightarrow>
          (\<exists>i < length candidates. candidates ! i = c \<and> toLowerCase c \<in> colsSet \<and>
            (\<forall>j < i. toLowerCase (candidates ! j) \<notin> colsSet))"
      (is "?L \<longleftrightarrow> ?R")
    proof
      assume ?L
      then obtain i where i: "i < length (a # candidates)" "(a # candidates) ! i = c"
        "toLowerCase c \<in> colsSet"
        and least: "\<forall>j < i. toLowerCase ((a # candidates) ! j) \<notin> colsSet"
        by blast
      from i False have "i \<noteq> 0" by (cases i) auto
      then obtain k where k: "i = Suc k" by (cases i) auto
      have "\<forall>j < k. toLowerCase (candidates ! j) \<notin> colsSet"
      proof (intro allI impI)
        fix j assume "j < k"
        then have "Suc j < i" using k by simp
        with least have "toLowerCase ((a # candidates) ! Suc j) \<notin> colsSet" by blast
        then show "toLowerCase (candidates ! j) \<notin> colsSet" by simp
      qed
      with i k show ?R by (intro exI [of _ k]) simp
    next
      assume ?R
      then obtain k where k: "k < length candidates" "candidates ! k = c"
        "toLowerCase c \<in> colsSet"
        and least: "\<forall>j < k. toLowerCase (candidates ! j) \<notin> colsSet"
        by blast
      have "\<forall>j < Suc k. toLowerCase ((a # candidates) ! j) \<notin> colsSet"
      proof (intro allI impI)
        fix j assume "j < Suc k"
        then show "toLowerCase ((a # candidates) ! j) \<notin> colsSet"
          using False least by (cases j) auto
      qed
      with k show ?L by (intro exI [of _ "Suc k"]) simp
    qed
    with False Cons.IH show ?thesis by simp
  qed
qed

text \<open>
  Claim C6. For every column set and every candidate list in priority order,
  \<open>findFirst\<close> returns the first candidate whose lowercase form is a member of the set
  (the candidate at the least index that matches, in its original spelling), and returns
  \<open>null\<close> exactly when no candidate matches. For the column set
  \<open>{status_id, ativo}\<close> and the candidates \<open>[Status, ativo, situacao]\<close> it returns
  \<open>ativo\<close>.
\<close>

theorem findFirst_priority:
  "(findFirst colsSet candidates = None \<longleftrightarrow>
      (\<forall>c \<in> set candidates. toLowerCase c \<notin> colsSet))
   \<and> (\<forall>c. findFirst colsSet candidates = Some c \<longleftrightarrow>
        (\<exists>i < length candidates. candidates ! i = c \<and> toLowerCase c \<in> colsSet \<and>
           (\<forall>j < i. toLowerCase (candidates ! j) \<notin> colsSet)))
   \<and> findFirst {''status_id'', ''ativo''} [''Status'', ''ativo'', ''situacao''] = Some ''ativo''"
proof (intro conjI allI)
  show "findFirst colsSet candidates = None \<longleftrightarrow>
      (\<forall>c \<in> set candidates. toLowerCase c \<notin> colsSet)"
    by (rule findFirst_None_iff)
  show "findFirst colsSet candidates = Some c \<longleftrightarrow>
        (\<exists>i < length candidates. candidates ! i = c \<and> toLowerCase c \<in> colsSet \<and>
           (\<forall>j < i. toLowerCase (candidates ! j) \<notin> colsSet))" for c
    by (rule findFirst_Some_iff)
  show "findFirst {''status_id'', ''ativo''} [''Status'', ''ativo'', ''situacao''] = Some ''ativo''"
    by (simp add: toLowerCase_def toLowerChar_def)
qed

theorem findFirst_priority_witness:
  "findFirst {''id_argus'', ''nome''} [''Nome_Front'', ''Nome'', ''name''] = Some ''Nome''
   \<and> findFirst {''id_argus'', ''nome''} [''equipe'', ''team''] = None"
proof -
  let ?S = "{''id_argus'', ''nome''}"
  let ?C = "[''Nome_Front'', ''Nome'', ''name'']"
  have hit: "\<exists>i < length ?C. ?C ! i = ''Nome'' \<and> toLowerCase ''Nome'' \<in> ?S \<and>
                (\<forall>j < i. toLowerCase (?C ! j) \<notin> ?S)"
    by (intro exI [of _ 1]) (simp add: toLowerCase_def toLowerChar_def)
  have miss: "\<forall>c \<in> set [''equipe'', ''team'']. toLowerCase c \<notin> ?S"
    by (simp add: toLowerCase_def toLowerChar_def)
  from hit have "findFirst ?S ?C = Some ''Nome''"
    using findFirst_priority [of ?S ?C] by blast
  moreover from miss have "findFirst ?S [''equipe'', ''team''] = None"
    using findFirst_priority [of ?S "[''equipe'', ''team'']"] by blast
  ultimately show ?thesis by simp
qed

section \<open>Backoff transitions\<close>

lemma backoff_functions:
  "failCount (increaseBackoff tnow st) = min (failCount st + 1) 6
   \<and> nextAllowedAt (increaseBackoff tnow st) = tnow + ms (min (15 * 2 ^ failCount st) 300)
   \<and> 1 \<le> failCount (increaseBackoff tnow st)
   \<and> nextAllowedAt (increaseBackoff tnow st) =
       tnow + ms (min (15 * 2 ^ (failCount (increaseBackoff tnow st) - 1)) 300)
   \<and> increaseBackoff tnow st =
       st\<lparr>failCount := min (failCount st + 1) 6,
          nextAllowedAt := tnow + ms (min (15 * 2 ^ failCount st) 300)\<rparr>
   \<and> failCount (resetBackoff st) = 0
   \<and> nextAllowedAt (resetBackoff st) = 0
   \<and> resetBackoff st = st\<lparr>failCount := 0, nextAllowedAt := 0\<rparr>"
proof -
  have delay: "min (15 * 2 ^ (min (failCount st + 1) 6 - 1)) (300 :: int)
                 = min (15 * 2 ^ failCount st) 300"
  proof (cases "failCount st \<le> 5")
    case True
    then have "min (failCount st + 1) 6 - 1 = failCount st" by simp
    then show ?thesis by simp
  next
    case False
    then have six: "min (failCount st + 1) 6 = 6" and big: "6 \<le> failCount st" by simp_all
    have "(2 :: int) ^ 6 \<le> 2 ^ failCount st"
      using big by (intro power_increasing) simp_all
    then have "(300 :: int) \<le> 15 * 2 ^ failCount st" by simp
    with six show ?thesis by simp
  qed
  show ?thesis
    using delay by (simp add: increaseBackoff_def resetBackoff_def Let_def)
qed

section \<open>TTL freshness of the cache service\<close>

lemma cache_get_after_set:
  "fst (cache_get T k (snd (cache_set T0 k v (Some t) cs))) =
     (if T - T0 \<le> t then Some v else None)"
  by (auto simp: cache_get_def cache_set_def Let_def update_conv')

lemma cache_get_evicts:
  "t < T - T0 \<Longrightarrow>
   map_of (cache_map (snd (cache_get T k (snd (cache_set T0 k v (Some t) cs))))) k = None"
  by (auto simp: cache_get_def cache_set_def Let_def update_conv' delete_conv')

lemma cache_get_absent:
  "map_of (cache_map cs) k = None \<Longrightarrow> fst (cache_get T k cs) = None"
  by (simp add: cache_get_def)

text \<open>
  Claim C7, at the boundary. An entry set at time 0 with a ttl of 10 ms is read at time 10,
  where \<open>T - T0 = t\<close>: \<open>get\<close> tests \<open>Date.now() > expiresAt\<close> and still returns the value
  and keeps the entry, while \<open>has\<close> (\<open>Date.now() < expiresAt\<close>) reports the key as expired
  and \<open>cleanup\<close> (\<open>expiresAt <= now\<close>) evicts it at the same instant.
\<close>

theorem cache_get_at_expiry:
  "fst (cache_get 10 ''k'' (snd (cache_set 0 ''k'' (7 :: nat) (Some 10) (cache_new 60000))))
     = Some 7
   \<and> map_of (cache_map
        (snd (cache_get 10 ''k'' (snd (cache_set 0 ''k'' (7 :: nat) (Some 10) (cache_new 60000))))))
        ''k'' \<noteq> None
   \<and> \<not> cache_has 10 ''k'' (snd (cache_set 0 ''k'' (7 :: nat) (Some 10) (cache_new 60000)))
   \<and> map_of (cache_map
        (cache_cleanup 10 (snd (cache_set 0 ''k'' (7 :: nat) (Some 10) (cache_new 60000)))))
        ''k'' = None"
  by (simp add: cache_get_def cache_set_def cache_has_def cache_cleanup_def cache_new_def)

section \<open>The photo map covers every requested id\<close>

lemma trim_slash: "trim (CHR ''/'' # x) \<noteq> []"
proof -
  have a: "dropWhile isSpaceChar (CHR ''/'' # x) = CHR ''/'' # x"
    by (simp add: isSpaceChar_def)
  have "rev (CHR ''/'' # x) = rev x @ [CHR ''/'']" by simp
  then have "dropWhile isSpaceChar (rev (CHR ''/'' # x)) \<noteq> []"
    by (simp add: dropWhile_append isSpaceChar_def)
  with a show ?thesis by (simp add: trim_def)
qed

lemma toAbsoluteUrl_slash: "toAbsoluteUrl env (CHR ''/'' # x) \<noteq> []"
  using trim_slash [of x] by (simp add: toAbsoluteUrl_def Let_def)

lemma defaultFoto_nonempty: "defaultFoto env \<noteq> []"
  by (simp add: defaultFoto_def)

lemma sanitize_None: "sanitizeFotoPath env None = defaultFoto env"
  by (simp add: sanitizeFotoPath_def trim_def)

lemma sanitizeFotoPath_nonempty: "sanitizeFotoPath env raw \<noteq> []"
  using toAbsoluteUrl_slash [of env]
  by (auto simp: sanitizeFotoPath_def Let_def defaultFoto_nonempty split: option.splits)

lemma nonemptyVals_upd:
  "nonemptyVals m \<Longrightarrow> nonemptyVals (m(k \<mapsto> sanitizeFotoPath env raw))"
  by (simp add: nonemptyVals_def sanitizeFotoPath_nonempty)

lemma consultCache_inv:
  "consultCache env opts tnow ids (outMap, toFetch, st) = (outMap', toFetch', st') \<Longrightarrow>
   dom outMap \<subseteq> dom outMap' \<and> set toFetch \<subseteq> set toFetch' \<and>
   set ids \<subseteq> dom outMap' \<union> set toFetch' \<and>
   (nonemptyVals outMap \<longrightarrow> nonemptyVals outMap')"
proof (induction ids arbitrary: outMap toFetch st)
  case Nil
  then show ?case by simp
next
  case (Cons uid ids)
  obtain o1 t1 s1 where step:
    "consultCache env opts tnow [uid] (outMap, toFetch, st) = (o1, t1, s1)"
    by (cases "consultCache env opts tnow [uid] (outMap, toFetch, st)") auto
  have one: "dom outMap \<subseteq> dom o1 \<and> set toFetch \<subseteq> set t1 \<and> uid \<in> dom o1 \<union> set t1 \<and>
             (nonemptyVals outMap \<longrightarrow> nonemptyVals o1)"
    using step by (auto simp: Let_def nonemptyVals_upd split: if_splits option.splits)
  have "consultCache env opts tnow (uid # ids) (outMap, toFetch, st)
          = consultCache env opts tnow ids (o1, t1, s1)"
    using step by (simp add: Let_def)
  with Cons.prems have "consultCache env opts tnow ids (o1, t1, s1) = (outMap', toFetch', st')"
    by simp
  from Cons.IH [OF this]
  have "dom o1 \<subseteq> dom outMap'" "set t1 \<subseteq> set toFetch'" "set ids \<subseteq> dom outMap' \<union> set toFetch'"
    "nonemptyVals o1 \<longrightarrow> nonemptyVals outMap'" by blast+
  with one show ?case by (simp, blast)
qed

lemma set_toSet: "set (toSet xs) = set xs"
proof -
  have "set (foldl (\<lambda>acc x. if x \<in> set acc then acc else acc @ [x]) acc xs) = set acc \<union> set xs"
    for acc :: "string list"
    by (induction xs arbitrary: acc) auto
  then show ?thesis by (simp add: toSet_def)
qed

lemma storeBatch_inv:
  "storeBatch env tnow mapDb batch (outMap, remaining, st) = (outMap', remaining', st') \<Longrightarrow>
   dom outMap \<union> set remaining \<subseteq> dom outMap' \<union> set remaining' \<and>
   (nonemptyVals outMap \<longrightarrow> nonemptyVals outMap')"
proof (induction batch arbitrary: outMap remaining st)
  case Nil
  then show ?case by simp
next
  case (Cons uid batch)
  show ?case
  proof (cases "mapDb uid")
    case None
    with Cons.prems have "storeBatch env tnow mapDb batch (outMap, remaining, st)
        = (outMap', remaining', st')" by simp
    from Cons.IH [OF this] show ?thesis .
  next
    case (Some raw)
    with Cons.prems have "storeBatch env tnow mapDb batch
        (outMap(uid \<mapsto> sanitizeFotoPath env (Some raw)), removeAll uid remaining,
         st\<lparr>foto_cache := (foto_cache st)(uid \<mapsto> \<lparr>fotoRaw = raw, rec_ts = tnow\<rparr>)\<rparr>)
        = (outMap', remaining', st')" by simp
    from Cons.IH [OF this]
    have cov: "dom (outMap(uid \<mapsto> sanitizeFotoPath env (Some raw))) \<union> set (removeAll uid remaining)
                 \<subseteq> dom outMap' \<union> set remaining'"
      and ne: "nonemptyVals (outMap(uid \<mapsto> sanitizeFotoPath env (Some raw))) \<longrightarrow> nonemptyVals outMap'"
      by blast+
    have "dom outMap \<union> set remaining
            \<subseteq> dom (outMap(uid \<mapsto> sanitizeFotoPath env (Some raw))) \<union> set (removeAll uid remaining)"
      by auto
    with cov have "dom outMap \<union> set remaining \<subseteq> dom outMap' \<union> set remaining'" by blast
    moreover from ne have "nonemptyVals outMap \<longrightarrow> nonemptyVals outMap'"
      using nonemptyVals_upd by blast
    ultimately show ?thesis by blast
  qed
qed

lemma fetchBatches_inv:
  "fetchBatches env tnow flag bs (outMap, remaining, st) = (outMap', remaining', st') \<Longrightarrow>
   dom outMap \<union> set remaining \<subseteq> dom outMap' \<union> set remaining' \<and>
   (nonemptyVals outMap \<longrightarrow> nonemptyVals outMap')"
proof (induction bs arbitrary: outMap remaining st)
  case Nil
  then show ?case by simp
next
  case (Cons batch bs)
  obtain res m where db: "fetchFotosFromDb env batch flag (foto_metrics st) = (res, m)"
    by (cases "fetchFotosFromDb env batch flag (foto_metrics st)") simp
  show ?case
  proof (cases res)
    case (Inl e)
    with Cons.prems db
    have "fetchBatches env tnow flag bs (outMap, remaining, st\<lparr>foto_metrics := m\<rparr>)
            = (outMap', remaining', st')" by simp
    from Cons.IH [OF this] show ?thesis .
  next
    case (Inr mapDb)
    obtain o1 r1 s1 where mid:
      "storeBatch env tnow mapDb batch (outMap, remaining, st\<lparr>foto_metrics := m\<rparr>) = (o1, r1, s1)"
      by (cases "storeBatch env tnow mapDb batch (outMap, remaining, st\<lparr>foto_metrics := m\<rparr>)") simp
    with Cons.prems db Inr
    have "fetchBatches env tnow flag bs (o1, r1, s1) = (outMap', remaining', st')" by simp
    from Cons.IH [OF this] storeBatch_inv [OF mid] show ?thesis by blast
  qed
qed

lemma fetchSources_inv:
  "fetchSources env tnow order (outMap, remaining, st) = (outMap', remaining', st') \<Longrightarrow>
   dom outMap \<union> set remaining \<subseteq> dom outMap' \<union> set remaining' \<and>
   (nonemptyVals outMap \<longrightarrow> nonemptyVals outMap')"
proof (induction order arbitrary: outMap remaining st)
  case Nil
  then show ?case by simp
next
  case (Cons flag order)
  show ?case
  proof (cases "remaining = []")
    case True
    with Cons.prems show ?thesis by auto
  next
    case False
    obtain o1 r1 s1 where mid:
      "fetchBatches env tnow flag (batches BATCH_SIZE remaining) (outMap, remaining, st)
         = (o1, r1, s1)"
      by (cases "fetchBatches env tnow flag (batches BATCH_SIZE remaining) (outMap, remaining, st)")
        simp
    with Cons.prems False
    have "fetchSources env tnow order (o1, r1, s1) = (outMap', remaining', st')" by simp
    from Cons.IH [OF this] fetchBatches_inv [OF mid] show ?thesis by blast
  qed
qed

lemma fallbackRemaining_inv:
  "fallbackRemaining env tnow remaining (outMap, st) = (outMap', st') \<Longrightarrow>
   dom outMap' = dom outMap \<union> set remaining \<and>
   (nonemptyVals outMap \<longrightarrow> nonemptyVals outMap')"
proof (induction remaining arbitrary: outMap st)
  case Nil
  then show ?case by simp
next
  case (Cons uid remaining)
  from Cons.prems have "fallbackRemaining env tnow remaining
       (outMap(uid \<mapsto> sanitizeFotoPath env None),
        st\<lparr>foto_cache := (foto_cache st)(uid \<mapsto> \<lparr>fotoRaw = [], rec_ts = tnow\<rparr>)\<rparr>)
       = (outMap', st')" by simp
  from Cons.IH [OF this]
  have d: "dom outMap' = dom (outMap(uid \<mapsto> sanitizeFotoPath env None)) \<union> set remaining"
    and ne: "nonemptyVals (outMap(uid \<mapsto> sanitizeFotoPath env None)) \<longrightarrow> nonemptyVals outMap'"
    by blast+
  from d have "dom outMap' = dom outMap \<union> set (uid # remaining)" by auto
  moreover from ne have "nonemptyVals outMap \<longrightarrow> nonemptyVals outMap'"
    using nonemptyVals_upd by blast
  ultimately show ?case by blast
qed

lemma fetchFotosMap_total:
  assumes "fetchFotosMap env opts tnow tlater ids st = (outMap, st')"
  shows "set ids \<subseteq> dom outMap \<and> nonemptyVals outMap"
proof -
  obtain o1 tf s1 where c: "consultCache env opts tnow ids (Map.empty, [], st) = (o1, tf, s1)"
    by (cases "consultCache env opts tnow ids (Map.empty, [], st)") simp
  have ne0: "nonemptyVals Map.empty" by (simp add: nonemptyVals_def)
  from consultCache_inv [OF c] ne0
  have c1: "set ids \<subseteq> dom o1 \<union> set tf" and n1: "nonemptyVals o1" by auto
  show ?thesis
  proof (cases "tf = []")
    case True
    with assms c have "outMap = o1" by (simp add: fetchFotosMap_def)
    with c1 n1 True show ?thesis by auto
  next
    case False
    let ?order = "if preferCloud opts then [True, False] else [False, True]"
    obtain o2 r2 s2 where f: "fetchSources env tlater ?order (o1, toSet tf, s1) = (o2, r2, s2)"
      by (cases "fetchSources env tlater ?order (o1, toSet tf, s1)") simp
    from assms c False f have fb: "fallbackRemaining env tlater r2 (o2, s2) = (outMap, st')"
      by (simp add: fetchFotosMap_def Let_def)
    from fetchSources_inv [OF f] n1
    have "dom o1 \<union> set tf \<subseteq> dom o2 \<union> set r2" and "nonemptyVals o2"
      by (auto simp: set_toSet)
    with fallbackRemaining_inv [OF fb] c1 show ?thesis by blast
  qed
qed

lemma rowsToMap_None: "uid \<notin> fst ` set rows \<Longrightarrow> rowsToMap rows uid = None"
proof -
  have "uid \<notin> fst ` set rows \<Longrightarrow>
        foldl (\<lambda>m (k, f). m(k \<mapsto> (case f of None \<Rightarrow> [] | Some x \<Rightarrow> x))) m0 rows uid = m0 uid"
    for m0 :: "string \<rightharpoonup> string"
    by (induction rows arbitrary: m0) (auto split: prod.splits)
  then show "uid \<notin> fst ` set rows \<Longrightarrow> rowsToMap rows uid = None"
    by (simp add: rowsToMap_def)
qed

lemma fetchFotosFromDb_None:
  "noStoredFoto env uid \<Longrightarrow> fetchFotosFromDb env batch flag m = (Inr mapDb, m') \<Longrightarrow>
   mapDb uid = None"
proof -
  assume no: "noStoredFoto env uid" and db: "fetchFotosFromDb env batch flag m = (Inr mapDb, m')"
  show "mapDb uid = None"
  proof (cases "batch = []")
    case True
    with db show ?thesis by (auto simp: fetchFotosFromDb_def)
  next
    case False
    with db obtain rows elapsed where q: "queryFotos env flag batch = Inr (rows, elapsed)"
      and m: "mapDb = rowsToMap rows"
      by (auto simp: fetchFotosFromDb_def split: sum.splits prod.splits)
    from no q have "uid \<notin> fst ` set rows" unfolding noStoredFoto_def by blast
    with m show ?thesis by (simp add: rowsToMap_None)
  qed
qed

lemma consultCache_miss:
  "consultCache env opts tnow ids (outMap, toFetch, st) = (outMap', toFetch', st') \<Longrightarrow>
   outMap uid = None \<Longrightarrow> notFresh env opts tnow st uid \<Longrightarrow>
   outMap' uid = None \<and> (uid \<in> set ids \<union> set toFetch \<longrightarrow> uid \<in> set toFetch')"
proof (induction ids arbitrary: outMap toFetch st)
  case Nil
  then show ?case by simp
next
  case (Cons a ids)
  obtain o1 t1 s1 where step:
    "consultCache env opts tnow [a] (outMap, toFetch, st) = (o1, t1, s1)"
    by (cases "consultCache env opts tnow [a] (outMap, toFetch, st)") auto
  have one: "o1 uid = None \<and> notFresh env opts tnow s1 uid \<and>
             (uid = a \<or> uid \<in> set toFetch \<longrightarrow> uid \<in> set t1)"
    using step Cons.prems(2,3)
    by (auto simp: Let_def notFresh_def split: if_splits option.splits)
  have "consultCache env opts tnow (a # ids) (outMap, toFetch, st)
          = consultCache env opts tnow ids (o1, t1, s1)"
    using step by (simp add: Let_def)
  with Cons.prems(1) have "consultCache env opts tnow ids (o1, t1, s1) = (outMap', toFetch', st')"
    by simp
  from Cons.IH [OF this] one show ?case by auto
qed

lemma storeBatch_miss:
  "storeBatch env tnow mapDb batch (outMap, remaining, st) = (outMap', remaining', st') \<Longrightarrow>
   mapDb uid = None \<Longrightarrow> outMap uid = None \<Longrightarrow> uid \<in> set remaining \<Longrightarrow>
   outMap' uid = None \<and> uid \<in> set remaining'"
proof (induction batch arbitrary: outMap remaining st)
  case Nil
  then show ?case by simp
next
  case (Cons a batch)
  show ?case
  proof (cases "mapDb a")
    case None
    with Cons.prems(1) have "storeBatch env tnow mapDb batch (outMap, remaining, st)
        = (outMap', remaining', st')" by simp
    from Cons.IH [OF this Cons.prems(2,3,4)] show ?thesis .
  next
    case (Some raw)
    with Cons.prems(2) have ne: "a \<noteq> uid" by auto
    from Some Cons.prems(1) have "storeBatch env tnow mapDb batch
        (outMap(a \<mapsto> sanitizeFotoPath env (Some raw)), removeAll a remaining,
         st\<lparr>foto_cache := (foto_cache st)(a \<mapsto> \<lparr>fotoRaw = raw, rec_ts = tnow\<rparr>)\<rparr>)
        = (outMap', remaining', st')" by simp
    from Cons.IH [OF this Cons.prems(2)] ne Cons.prems(3,4) show ?thesis by simp
  qed
qed

lemma fetchBatches_miss:
  "fetchBatches env tnow flag bs (outMap, remaining, st) = (outMap', remaining', st') \<Longrightarrow>
   noStoredFoto env uid \<Longrightarrow> outMap uid = None \<Longrightarrow> uid \<in> set remaining \<Longrightarrow>
   outMap' uid = None \<and> uid \<in> set remaining'"
proof (induction bs arbitrary: outMap remaining st)
  case Nil
  then show ?case by simp
next
  case (Cons batch bs)
  obtain res m where db: "fetchFotosFromDb env batch flag (foto_metrics st) = (res, m)"
    by (cases "fetchFotosFromDb env batch flag (foto_metrics st)") simp
  show ?case
  proof (cases res)
    case (Inl e)
    with Cons.prems(1) db
    have "fetchBatches env tnow flag bs (outMap, remaining, st\<lparr>foto_metrics := m\<rparr>)
            = (outMap', remaining', st')" by simp
    from Cons.IH [OF this Cons.prems(2,3,4)] show ?thesis .
  next
    case (Inr mapDb)
    obtain o1 r1 s1 where mid:
      "storeBatch env tnow mapDb batch (outMap, remaining, st\<lparr>foto_metrics := m\<rparr>) = (o1, r1, s1)"
      by (cases "storeBatch env tnow mapDb batch (outMap, remaining, st\<lparr>foto_metrics := m\<rparr>)") simp
    with Cons.prems(1) db Inr
    have rest: "fetchBatches env tnow flag bs (o1, r1, s1) = (outMap', remaining', st')" by simp
    from db Inr have "mapDb uid = None"
      using fetchFotosFromDb_None [OF Cons.prems(2)] by simp
    from storeBatch_miss [OF mid this Cons.prems(3,4)]
    have "o1 uid = None" "uid \<in> set r1" by simp_all
    from Cons.IH [OF rest Cons.prems(2) this] show ?thesis .
  qed
qed

lemma fetchSources_miss:
  "fetchSources env tnow order (outMap, remaining, st) = (outMap', remaining', st') \<Longrightarrow>
   noStoredFoto env uid \<Longrightarrow> outMap uid = None \<Longrightarrow> uid \<in> set remaining \<Longrightarrow>
   outMap' uid = None \<and> uid \<in> set remaining'"
proof (induction order arbitrary: outMap remaining st)
  case Nil
  then show ?case by simp
next
  case (Cons flag order)
  from Cons.prems(4) have ne: "remaining \<noteq> []" by auto
  obtain o1 r1 s1 where mid:
    "fetchBatches env tnow flag (batches BATCH_SIZE remaining) (outMap, remaining, st)
       = (o1, r1, s1)"
    by (cases "fetchBatches env tnow flag (batches BATCH_SIZE remaining) (outMap, remaining, st)")
      simp
  with Cons.prems(1) ne
  have rest: "fetchSources env tnow order (o1, r1, s1) = (outMap', remaining', st')" by simp
  from fetchBatches_miss [OF mid Cons.prems(2,3,4)]
  have "o1 uid = None" "uid \<in> set r1" by simp_all
  from Cons.IH [OF rest Cons.prems(2) this] show ?case .
qed

lemma fallbackRemaining_value:
  "fallbackRemaining env tnow remaining (outMap, st) = (outMap', st') \<Longrightarrow>
   outMap' k = (if k \<in> set remaining then Some (sanitizeFotoPath env None) else outMap k)"
proof (induction remaining arbitrary: outMap st)
  case Nil
  then show ?case by simp
next
  case (Cons a remaining)
  from Cons.prems have "fallbackRemaining env tnow remaining
       (outMap(a \<mapsto> sanitizeFotoPath env None),
        st\<lparr>foto_cache := (foto_cache st)(a \<mapsto> \<lparr>fotoRaw = [], rec_ts = tnow\<rparr>)\<rparr>)
       = (outMap', st')" by simp
  from Cons.IH [OF this] show ?case by simp
qed

lemma fetchFotosMap_placeholder:
  assumes run: "fetchFotosMap env opts tnow tlater ids st = (outMap, st')"
    and uid: "uid \<in> set ids"
    and stale: "notFresh env opts tnow st uid"
    and noRow: "noStoredFoto env uid"
  shows "outMap uid = Some (defaultFoto env)"
proof -
  obtain o1 tf s1 where c: "consultCache env opts tnow ids (Map.empty, [], st) = (o1, tf, s1)"
    by (cases "consultCache env opts tnow ids (Map.empty, [], st)") simp
  from consultCache_miss [OF c _ stale] uid have o1: "o1 uid = None" and tf: "uid \<in> set tf"
    by simp_all
  then have ne: "tf \<noteq> []" by auto
  let ?order = "if preferCloud opts then [True, False] else [False, True]"
  obtain o2 r2 s2 where f: "fetchSources env tlater ?order (o1, toSet tf, s1) = (o2, r2, s2)"
    by (cases "fetchSources env tlater ?order (o1, toSet tf, s1)") simp
  from run c ne f have fb: "fallbackRemaining env tlater r2 (o2, s2) = (outMap, st')"
    by (simp add: fetchFotosMap_def Let_def)
  from tf have "uid \<in> set (toSet tf)" by (simp add: set_toSet)
  from fetchSources_miss [OF f noRow o1 this] have "uid \<in> set r2" by simp
  with fallbackRemaining_value [OF fb, of uid] show ?thesis by (simp add: sanitize_None)
qed

text \<open>
  Claim C9. For every list of requested ids, the map returned by \<open>fetchFotosMap\<close> has an
  entry for every requested id and every entry is a non-empty string; an id that is not
  answered from the cache and for which no photo query returns a row (no stored photo, or
  every lookup fails) is mapped to the placeholder \<open>sanitizeFotoPath(null)\<close>, the default
  icon url, which is itself non-empty.
\<close>

theorem fetchFotosMap_every_id:
  "(\<forall>uid \<in> set ids.
      \<exists>url. fst (fetchFotosMap env opts tnow tlater ids st) uid = Some url \<and> url \<noteq> [])
   \<and> (\<forall>uid \<in> set ids.
        notFresh env opts tnow st uid \<and> noStoredFoto env uid \<longrightarrow>
        fst (fetchFotosMap env opts tnow tlater ids st) uid = Some (sanitizeFotoPath env None))
   \<and> sanitizeFotoPath env None = defaultFoto env
   \<and> defaultFoto env \<noteq> []"
proof -
  obtain outMap st' where run: "fetchFotosMap env opts tnow tlater ids st = (outMap, st')"
    by (cases "fetchFotosMap env opts tnow tlater ids st") simp
  from fetchFotosMap_total [OF run]
  have cov: "set ids \<subseteq> dom outMap" and ne: "nonemptyVals outMap" by simp_all
  have "\<exists>url. outMap uid = Some url \<and> url \<noteq> []" if "uid \<in> set ids" for uid
  proof -
    from that cov obtain url where "outMap uid = Some url" by blast
    with ne show ?thesis by (auto simp: nonemptyVals_def)
  qed
  moreover have "outMap uid = Some (sanitizeFotoPath env None)"
    if "uid \<in> set ids" "notFresh env opts tnow st uid" "noStoredFoto env uid" for uid
    using fetchFotosMap_placeholder [OF run that] by (simp add: sanitize_None)
  ultimately show ?thesis
    using run by (simp add: sanitize_None defaultFoto_nonempty)
qed

theorem fetchFotosMap_every_id_witness:
  "(\<exists>url. fst (fetchFotosMap demoFotoEnv \<lparr>useCache = True, preferCloud = True\<rparr> 1000 1005
              [''7'', ''9''] emptyFotoState) ''7'' = Some url \<and> url \<noteq> [])
   \<and> fst (fetchFotosMap demoFotoEnv \<lparr>useCache = True, preferCloud = True\<rparr> 1000 1005
          [''7'', ''9''] emptyFotoState) ''9''
       = Some ''http://localhost:8003/vieira-icone.jpg?v=1''"
proof -
  let ?opts = "\<lparr>useCache = True, preferCloud = True\<rparr>"
  have stale: "notFresh demoFotoEnv ?opts 1000 emptyFotoState ''9''"
    by (simp add: notFresh_def emptyFotoState_def)
  have noRow: "noStoredFoto demoFotoEnv ''9''"
    by (auto simp: noStoredFoto_def demoFotoEnv_def split: if_splits)
  have dflt: "sanitizeFotoPath demoFotoEnv None = ''http://localhost:8003/vieira-icone.jpg?v=1''"
    by (simp add: sanitizeFotoPath_def defaultFoto_def toAbsoluteUrl_def trim_def isSpaceChar_def
          demoFotoEnv_def isHttpUrl_def toLowerCase_def toLowerChar_def Let_def)
  from fetchFotosMap_every_id [of "[''7'', ''9'']" demoFotoEnv ?opts 1000 1005 emptyFotoState]
    stale noRow dflt
  show ?thesis by simp
qed

section \<open>Ranking construction\<close>

lemma insertSorted_insort:
  "insertSorted byValorDesc x ys = insort_key (\<lambda>e. - snd e) x ys"
  by (induction ys) (auto simp: byValorDesc_def)

lemma arraySort_sort_key:
  "arraySort byValorDesc xs = sort_key (\<lambda>e. - snd e) xs"
proof -
  have "insertSorted byValorDesc = insort_key (\<lambda>e. - snd e)"
    by (intro ext) (rule insertSorted_insort)
  then show ?thesis by (simp add: arraySort_def sort_key_def)
qed

lemma arraySort_desc:
  "sorted_wrt (\<lambda>a b. snd b \<le> snd a) (arraySort byValorDesc xs)"
proof -
  have "sorted (map (\<lambda>e. - snd e) (sort_key (\<lambda>e. - snd e) xs))"
    by (rule sorted_sort_key)
  then show ?thesis
    by (simp add: arraySort_sort_key sorted_wrt_map)
qed

lemma arraySort_stable:
  "filter (\<lambda>e. snd e = v) (arraySort byValorDesc xs) = filter (\<lambda>e. snd e = v) xs"
  using sort_key_stable [of "\<lambda>e. - snd e" "- v" xs]
  by (simp add: arraySort_sort_key)

lemma arraySort_mset: "mset (arraySort byValorDesc xs) = mset xs"
  by (simp add: arraySort_sort_key)

lemma filter_take_prefix:
  "filter P (take n xs) = take (length (filter P (take n xs))) (filter P xs)"
proof -
  have "filter P xs = filter P (take n xs) @ filter P (drop n xs)"
    by (metis append_take_drop_id filter_append)
  then show ?thesis by simp
qed

lemma topRows_length: "length (topRows salesMap) = min 5 (length salesMap)"
proof -
  have "length (arraySort byValorDesc salesMap) = length salesMap"
    by (metis arraySort_mset size_mset)
  then show ?thesis by (simp add: topRows_def min.commute)
qed

lemma topRows_desc: "sorted_wrt (\<lambda>a b. snd b \<le> snd a) (topRows salesMap)"
  unfolding topRows_def using arraySort_desc by (rule sorted_wrt_take)

lemma topRows_stable:
  "\<exists>n. filter (\<lambda>e. snd e = v) (topRows salesMap) = take n (filter (\<lambda>e. snd e = v) salesMap)"
  unfolding topRows_def
  using filter_take_prefix [of "\<lambda>e. snd e = v" 5 "arraySort byValorDesc salesMap"]
  by (auto simp: arraySort_stable)

lemma topRows_top:
  "\<exists>rest. mset (topRows salesMap @ rest) = mset salesMap \<and>
          (\<forall>e \<in> set rest. \<forall>r \<in> set (topRows salesMap). snd e \<le> snd r)"
proof -
  let ?s = "arraySort byValorDesc salesMap"
  have split: "take 5 ?s @ drop 5 ?s = ?s" by simp
  have "sorted_wrt (\<lambda>a b. snd b \<le> snd a) (take 5 ?s @ drop 5 ?s)"
    using arraySort_desc [of salesMap] by simp
  then have "\<forall>r \<in> set (take 5 ?s). \<forall>e \<in> set (drop 5 ?s). snd e \<le> snd r"
    unfolding sorted_wrt_append by blast
  moreover have "mset (take 5 ?s @ drop 5 ?s) = mset salesMap"
    using arraySort_mset [of salesMap] by simp
  ultimately show ?thesis unfolding topRows_def by blast
qed

lemma buildRow_fields:
  "row_id (buildRow env key vendedores fotos (idx, (rid, valor))) = rid"
  "valorVendido (buildRow env key vendedores fotos (idx, (rid, valor))) = valor"
  "posicao (buildRow env key vendedores fotos (idx, (rid, valor))) = idx + 1"
  by (simp_all add: buildRow_def Let_def)

lemma buildRanking_pairs:
  "map (\<lambda>r. (row_id r, valorVendido r)) (buildRanking env key vendedores salesMap)
     = topRows salesMap"
proof -
  have "map ((\<lambda>r. (row_id r, valorVendido r)) \<circ> buildRow env key vendedores fotos) (enumerate n xs)
          = xs" for fotos n xs
    by (induction xs arbitrary: n) (auto simp: buildRow_fields)
  then show ?thesis by (simp add: buildRanking_def Let_def)
qed

lemma buildRanking_length:
  "length (buildRanking env key vendedores salesMap) = min 5 (length salesMap)"
  using topRows_length [of salesMap] by (simp add: buildRanking_def Let_def)

lemma buildRanking_posicao:
  "i < length (buildRanking env key vendedores salesMap) \<Longrightarrow>
   posicao (buildRanking env key vendedores salesMap ! i) = i + 1"
  by (simp add: buildRanking_def Let_def nth_enumerate_eq buildRow_def split: prod.splits)

lemma buildRanking_desc:
  "sorted_wrt (\<lambda>a b. valorVendido b \<le> valorVendido a) (buildRanking env key vendedores salesMap)"
proof -
  have "sorted_wrt (\<lambda>a b. snd b \<le> snd a)
          (map (\<lambda>r. (row_id r, valorVendido r)) (buildRanking env key vendedores salesMap))"
    using topRows_desc [of salesMap] by (simp only: buildRanking_pairs)
  then show ?thesis by (simp add: sorted_wrt_map)
qed

lemma buildRanking_stable:
  "\<exists>n. map row_id (filter (\<lambda>r. valorVendido r = v) (buildRanking env key vendedores salesMap))
         = take n (map fst (filter (\<lambda>e. snd e = v) salesMap))"
proof -
  let ?res = "buildRanking env key vendedores salesMap"
  let ?pair = "\<lambda>r. (row_id r, valorVendido r)"
  obtain n where n: "filter (\<lambda>e. snd e = v) (topRows salesMap)
                       = take n (filter (\<lambda>e. snd e = v) salesMap)"
    using topRows_stable by blast
  have "map row_id (filter (\<lambda>r. valorVendido r = v) ?res)
          = map fst (filter (\<lambda>e. snd e = v) (map ?pair ?res))"
    by (simp add: filter_map comp_def)
  also have "\<dots> = map fst (take n (filter (\<lambda>e. snd e = v) salesMap))"
    using n by (simp only: buildRanking_pairs)
  finally show ?thesis by (auto simp: take_map)
qed

lemma buildRanking_top:
  "\<exists>rest. mset (map (\<lambda>r. (row_id r, valorVendido r)) (buildRanking env key vendedores salesMap) @ rest)
            = mset salesMap \<and>
          (\<forall>e \<in> set rest. \<forall>r \<in> set (buildRanking env key vendedores salesMap).
              snd e \<le> valorVendido r)"
proof -
  let ?res = "buildRanking env key vendedores salesMap"
  obtain rest where rest: "mset (topRows salesMap @ rest) = mset salesMap"
    and le: "\<forall>e \<in> set rest. \<forall>r \<in> set (topRows salesMap). snd e \<le> snd r"
    using topRows_top by blast
  have "\<forall>e \<in> set rest. \<forall>r \<in> set ?res. snd e \<le> valorVendido r"
  proof (intro ballI)
    fix e r assume e: "e \<in> set rest" and r: "r \<in> set ?res"
    from r have "(row_id r, valorVendido r) \<in> set (map (\<lambda>r. (row_id r, valorVendido r)) ?res)"
      unfolding set_map by (rule imageI)
    then have "(row_id r, valorVendido r) \<in> set (topRows salesMap)"
      by (simp only: buildRanking_pairs)
    with le e show "snd e \<le> valorVendido r" by fastforce
  qed
  moreover have "mset (map (\<lambda>r. (row_id r, valorVendido r)) ?res @ rest) = mset salesMap"
    using rest by (simp only: buildRanking_pairs)
  ultimately show ?thesis by blast
qed

lemma updateRanking_sorted_path:
  assumes "getLocalPool env 0 = Inr True"
    and "queryVendedores env (rankingKey env empresa) = Inr vendedores"
    and "filter (\<lambda>i. i \<noteq> []) (map id_new vendedores) \<noteq> []"
    and "getSalesTodayForVendedorIds env (filter (\<lambda>i. i \<noteq> []) (map id_new vendedores)) = Inr salesMap"
    and "salesMap \<noteq> []"
  shows "updateRanking env empresa tset st =
           (buildRanking env (rankingKey env empresa) vendedores salesMap,
            setRankingCache (rankingKey env empresa)
              (buildRanking env (rankingKey env empresa) vendedores salesMap) tset st)"
proof -
  from assms(3) have "vendedores \<noteq> []" by auto
  with assms show ?thesis
    by (simp add: updateRanking_def updateRanking_catch_def updateRanking_lastResort_def updateRanking_try_def Let_def)
qed

text \<open>
  Claim C8. When the sales of the day are a non-empty map, \<open>updateRanking\<close> returns (and
  caches) a list that is sorted in descending order of \<open>valorVendido\<close>, has at most five
  entries (five, or all of them when there are fewer), numbers them with \<open>posicao\<close> from 1
  in list order, and keeps sellers with equal amounts in the order in which the map lists
  them: for every amount, the ids ranked with that amount are an initial segment of the ids
  that the map lists with that amount. The rows are the largest totals: every total left out
  is at most every total ranked.
\<close>

theorem updateRanking_top5:
  assumes "getLocalPool env 0 = Inr True"
    and "queryVendedores env (rankingKey env empresa) = Inr vendedores"
    and "filter (\<lambda>i. i \<noteq> []) (map id_new vendedores) \<noteq> []"
    and "getSalesTodayForVendedorIds env (filter (\<lambda>i. i \<noteq> []) (map id_new vendedores)) = Inr salesMap"
    and "salesMap \<noteq> []"
    and "result = fst (updateRanking env empresa tset st)"
  shows "length result = min 5 (length salesMap)
    \<and> (\<forall>i j. i \<le> j \<and> j < length result \<longrightarrow>
          valorVendido (result ! j) \<le> valorVendido (result ! i))
    \<and> (\<forall>i < length result. posicao (result ! i) = i + 1)
    \<and> (\<forall>v. \<exists>n. map row_id (filter (\<lambda>r. valorVendido r = v) result)
                  = take n (map fst (filter (\<lambda>e. snd e = v) salesMap)))
    \<and> (\<exists>rest. mset (map (\<lambda>r. (row_id r, valorVendido r)) result @ rest) = mset salesMap
          \<and> (\<forall>e \<in> set rest. \<forall>r \<in> set result. snd e \<le> valorVendido r))
    \<and> cellData (rankingCacheMap (snd (updateRanking env empresa tset st)) (rankingKey env empresa))
        = Some result"
proof -
  let ?key = "rankingKey env empresa"
  have run: "updateRanking env empresa tset st =
      (buildRanking env ?key vendedores salesMap,
       setRankingCache ?key (buildRanking env ?key vendedores salesMap) tset st)"
    using assms(1-5) by (rule updateRanking_sorted_path)
  with assms(6) have res: "result = buildRanking env ?key vendedores salesMap" by simp
  have desc: "\<forall>i j. i \<le> j \<and> j < length result \<longrightarrow>
          valorVendido (result ! j) \<le> valorVendido (result ! i)"
  proof (intro allI impI)
    fix i j assume ij: "i \<le> j \<and> j < length result"
    show "valorVendido (result ! j) \<le> valorVendido (result ! i)"
    proof (cases "i = j")
      case True
      then show ?thesis by simp
    next
      case False
      with ij have "i < j" "j < length result" by simp_all
      with buildRanking_desc [of env ?key vendedores salesMap] res show ?thesis
        by (simp add: sorted_wrt_iff_nth_less)
    qed
  qed
  have cache: "cellData (rankingCacheMap (snd (updateRanking env empresa tset st)) ?key) = Some result"
    using run res by (simp add: setRankingCache_def cellData_def)
  show ?thesis
    using desc cache buildRanking_length [of env ?key vendedores salesMap]
      buildRanking_posicao [of _ env ?key vendedores salesMap]
      buildRanking_stable [of _ env ?key vendedores salesMap]
      buildRanking_top [of env ?key vendedores salesMap]
    unfolding res by blast
qed

theorem updateRanking_top5_witness:
  "map (\<lambda>r. (row_id r, posicao r))
     (fst (updateRanking demoRankingEnv ''VIEIRACRED'' 1000 emptyRankingState))
     = [(''B'', 1), (''C'', 2), (''A'', 3)]
   \<and> length (fst (updateRanking demoRankingEnv ''VIEIRACRED'' 1000 emptyRankingState))
       = min 5 (length [(''A'', 100 :: real), (''B'', 250.5), (''C'', 250.5)])"
proof -
  let ?vs = "[\<lparr>id_new = ''A'', v_nome = Some ''Ana'', v_equipe = Some ''E1'', v_empresa = None\<rparr>,
             \<lparr>id_new = ''B'', v_nome = Some ''Bia'', v_equipe = None, v_empresa = None\<rparr>,
             \<lparr>id_new = ''C'', v_nome = None, v_equipe = None, v_empresa = None\<rparr>]"
  let ?sales = "[(''A'', 100 :: real), (''B'', 250.5), (''C'', 250.5)]"
  let ?result = "fst (updateRanking demoRankingEnv ''VIEIRACRED'' 1000 emptyRankingState)"
  have eval: "map (\<lambda>r. (row_id r, posicao r)) ?result = [(''B'', 1), (''C'', 2), (''A'', 3)]"
    by (simp add: updateRanking_def updateRanking_catch_def updateRanking_lastResort_def updateRanking_try_def demoRankingEnv_def
          emptyRankingState_def rankingKey_def buildRanking_def topRows_def arraySort_def
          byValorDesc_def buildRow_def enumerate_eq_zip Let_def)
  have h1: "getLocalPool demoRankingEnv 0 = Inr True"
    and h2: "queryVendedores demoRankingEnv (rankingKey demoRankingEnv ''VIEIRACRED'') = Inr ?vs"
    and h3: "filter (\<lambda>i. i \<noteq> []) (map id_new ?vs) \<noteq> []"
    and h4: "getSalesTodayForVendedorIds demoRankingEnv (filter (\<lambda>i. i \<noteq> []) (map id_new ?vs))
               = Inr ?sales"
    and h5: "?sales \<noteq> []"
    by (simp_all add: demoRankingEnv_def)
  from updateRanking_top5 [OF h1 h2 h3 h4 h5 refl, of 1000 emptyRankingState] eval
  show ?thesis by blast
qed

section \<open>The 403 latch and the fetch flag\<close>

lemma fetch_latched:
  "argusAuthFailed st \<Longrightarrow> fetchArgusForRamal env ramal (st, sent) = (None, st, sent)"
  by (simp add: fetchArgusForRamal_def argusGuard_def)

lemma fetchArgusSeq_latched:
  "argusAuthFailed st \<Longrightarrow>
   fetchArgusSeq env calls (st, sent) = (replicate (length calls) None, st, sent)"
proof (induction calls)
  case Nil
  show ?case by simp
next
  case (Cons c calls)
  obtain ramal responses where c: "c = (ramal, responses)" by (cases c)
  from Cons show ?case
    by (simp add: c fetch_latched)
qed

lemma argusLoop_403:
  "argusLoop env ramal attempt (st, sent) = (r, st', sent') \<Longrightarrow>
   sent \<le> sent' \<and>
   ((\<exists>k. attempt \<le> k \<and> k < attempt + (sent' - sent) \<and> is403 (argusGet env ramal k)) \<longrightarrow>
      r = None \<and> argusAuthFailed st')"
proof (induction env ramal attempt "(st, sent)" arbitrary: st sent rule: argusLoop.induct)
  case (1 env ramal attempt st sent)
  note run = "1.prems"
  show ?case
  proof (cases "int attempt \<le> ARGUS_RETRY env")
    case False
    with run show ?thesis by (auto simp: argusLoop.simps)
  next
    case inRange: True
    have next_ok: "sent \<le> sent' \<and>
        ((\<exists>k. attempt \<le> k \<and> k < attempt + (sent' - sent) \<and> is403 (argusGet env ramal k)) \<longrightarrow>
          r = None \<and> argusAuthFailed st')"
      if rec: "argusLoop env ramal (attempt + 1) (st, sent + 1) = (r, st', sent')"
        and ih: "sent + 1 \<le> sent' \<and>
          ((\<exists>k. attempt + 1 \<le> k \<and> k < attempt + 1 + (sent' - (sent + 1)) \<and>
                is403 (argusGet env ramal k)) \<longrightarrow> r = None \<and> argusAuthFailed st')"
        and here: "\<not> is403 (argusGet env ramal attempt)"
    proof (rule conjI, goal_cases)
      case 1
      from ih show ?case by simp
    next
      case 2
      show ?case
      proof
        assume "\<exists>k. attempt \<le> k \<and> k < attempt + (sent' - sent) \<and> is403 (argusGet env ramal k)"
        then obtain k where k: "attempt \<le> k" "k < attempt + (sent' - sent)"
          "is403 (argusGet env ramal k)" by blast
        with here have "k \<noteq> attempt" by auto
        with k ih have "attempt + 1 \<le> k \<and> k < attempt + 1 + (sent' - (sent + 1))" by simp
        with k ih show "r = None \<and> argusAuthFailed st'" by blast
      qed
    qed
    have done_ok: "sent \<le> sent' \<and>
        ((\<exists>k. attempt \<le> k \<and> k < attempt + (sent' - sent) \<and> is403 (argusGet env ramal k)) \<longrightarrow>
          r = None \<and> argusAuthFailed st')"
      if "sent' = sent + 1" and "is403 (argusGet env ramal attempt) \<longrightarrow> r = None \<and> argusAuthFailed st'"
    proof (rule conjI, goal_cases)
      case 1
      from that show ?case by simp
    next
      case 2
      show ?case
      proof
        assume "\<exists>k. attempt \<le> k \<and> k < attempt + (sent' - sent) \<and> is403 (argusGet env ramal k)"
        then obtain k where k: "attempt \<le> k" "k < attempt + (sent' - sent)"
          "is403 (argusGet env ramal k)" by blast
        with that(1) have "k = attempt" by simp
        with k that(2) show "r = None \<and> argusAuthFailed st'" by simp
      qed
    qed
    show ?thesis
    proof (cases "argusGet env ramal attempt")
      case NetworkError
      show ?thesis
      proof (cases "int attempt < ARGUS_RETRY env")
        case True
        with run inRange NetworkError
        have rec: "argusLoop env ramal (attempt + 1) (st, sent + 1) = (r, st', sent')"
          by (simp add: argusLoop.simps [of env ramal attempt])
        from "1.hyps"(1) [OF inRange NetworkError True rec] rec NetworkError
        show ?thesis by (intro next_ok) (simp_all add: is403_def)
      next
        case False
        with run inRange NetworkError have "sent' = sent + 1"
          by (simp add: argusLoop.simps [of env ramal attempt])
        with NetworkError show ?thesis by (intro done_ok) (simp_all add: is403_def)
      qed
    next
      case (Response code rdata)
      consider (ok) "code = 200 \<and> rdata \<noteq> None"
        | (forbidden) "\<not> (code = 200 \<and> rdata \<noteq> None)" "code = 403"
        | (bad) "\<not> (code = 200 \<and> rdata \<noteq> None)" "code \<noteq> 403" "code = 400"
        | (server) "\<not> (code = 200 \<and> rdata \<noteq> None)" "code \<noteq> 403" "code \<noteq> 400" "code \<ge> 500"
        | (other) "\<not> (code = 200 \<and> rdata \<noteq> None)" "code \<noteq> 403" "code \<noteq> 400" "\<not> code \<ge> 500"
        by blast
      then show ?thesis
      proof cases
        case ok
        with run inRange Response have "sent' = sent + 1"
          by (auto simp: argusLoop.simps [of env ramal attempt] split: option.splits)
        with Response ok show ?thesis by (intro done_ok) (simp_all add: is403_def)
      next
        case forbidden
        with run inRange Response have "sent' = sent + 1 \<and> r = None \<and> argusAuthFailed st'"
          by (cases rdata) (auto simp: argusLoop.simps [of env ramal attempt])
        then show ?thesis by (intro done_ok) simp_all
      next
        case bad
        with run inRange Response have "sent' = sent + 1"
          by (cases rdata) (auto simp: argusLoop.simps [of env ramal attempt])
        with Response bad show ?thesis by (intro done_ok) (simp_all add: is403_def)
      next
        case server
        show ?thesis
        proof (cases "int attempt < ARGUS_RETRY env")
          case True
          with run inRange Response server
          have rec: "argusLoop env ramal (attempt + 1) (st, sent + 1) = (r, st', sent')"
            by (cases rdata) (auto simp: argusLoop.simps [of env ramal attempt])
          from "1.hyps"(2) [OF inRange Response server(1,2,3,4) True rec] rec Response server
          show ?thesis by (intro next_ok) (simp_all add: is403_def)
        next
          case False
          with run inRange Response server have "sent' = sent + 1"
            by (cases rdata) (auto simp: argusLoop.simps [of env ramal attempt])
          with Response server show ?thesis by (intro done_ok) (simp_all add: is403_def)
        qed
      next
        case other
        with run inRange Response
        have rec: "argusLoop env ramal (attempt + 1) (st, sent + 1) = (r, st', sent')"
          by (cases rdata) (auto simp: argusLoop.simps [of env ramal attempt])
        from "1.hyps"(3) [OF inRange Response other(1,2,3,4) rec] rec Response other
        show ?thesis by (intro next_ok) (simp_all add: is403_def)
      qed
    qed
  qed
qed

lemma processBatch_returns:
  assumes pos: "0 < ARGUS_CONCURRENCY env"
  shows "processBatch env items i acc \<noteq> None"
proof (induction "nat (int (length items) - i)" arbitrary: i acc rule: less_induct)
  case less
  show ?case
  proof (cases "i < int (length items)")
    case False
    then show ?thesis by (subst processBatch.simps) simp
  next
    case True
    let ?acc = "case acc of (out, st, sent) \<Rightarrow>
             runChunk env st (slice items i (i + ARGUS_CONCURRENCY env)) (out, st, sent)"
    from True pos have "nat (int (length items) - (i + ARGUS_CONCURRENCY env))
                          < nat (int (length items) - i)" by simp
    from less [OF this]
    have "processBatch env items (i + ARGUS_CONCURRENCY env) ?acc \<noteq> None" .
    with True show ?thesis by (subst processBatch.simps) simp
  qed
qed

lemma processBatch_diverges:
  assumes zero: "ARGUS_CONCURRENCY env = 0" and more: "i < int (length items)"
  shows "processBatch env items i acc = None"
proof (rule ccontr)
  assume "processBatch env items i acc \<noteq> None"
  then obtain res where res: "processBatch env items i acc = Some res" by blast
  have "\<not> (ARGUS_CONCURRENCY env = 0 \<and> i < int (length items))"
  proof (rule processBatch.raw_induct
          [where P = "\<lambda>env items i acc res. \<not> (ARGUS_CONCURRENCY env = 0 \<and> i < int (length items))",
           OF _ res], goal_cases)
    case (1 pb env items i acc res)
    show ?case
    proof
      assume z: "ARGUS_CONCURRENCY env = 0 \<and> i < int (length items)"
      with 1(2) have "pb env items i
          (case acc of (out, st, sent) \<Rightarrow> runChunk env st (slice items i i) (out, st, sent))
          = Some res" by simp
      from 1(1) [OF this] z show False by simp
    qed
  qed
  with zero more show False by simp
qed

lemma updateStatus_try_returns:
  assumes pos: "0 < ARGUS_CONCURRENCY env"
  shows "\<exists>res st' sent'. updateStatus_try env (st, sent) = Some (res, st', sent')"
proof -
  have pb: "\<exists>a b c. processBatch env items i acc = Some (a, b, c)" for items i acc
    using processBatch_returns [OF pos, of items i acc] by (cases "processBatch env items i acc") auto
  obtain colabCols st1 where c1: "detectColumns env (TABELA_COLAB env) st = (colabCols, st1)"
    by (cases "detectColumns env (TABELA_COLAB env) st") simp
  obtain statusCols st2 where c2: "detectColumns env (TABELA_STATUS env) st1 = (statusCols, st2)"
    by (cases "detectColumns env (TABELA_STATUS env) st1") simp
  show ?thesis
  proof (cases "localPool env")
    case (Inl e)
    then show ?thesis by (simp add: updateStatus_try_def)
  next
    case (Inr ok)
    show ?thesis
    proof (cases ok)
      case False
      with Inr show ?thesis by (simp add: updateStatus_try_def)
    next
      case True
      show ?thesis
      proof (cases "queryRamais env")
        case (Inl e)
        with Inr True c1 c2 show ?thesis by (simp add: updateStatus_try_def)
      next
        case ramais: (Inr ramais)
        obtain updates st3 sent3 where
          p: "processBatch env ramais 0 ([], st2, sent) = Some (updates, st3, sent3)"
          using pb by blast
        with Inr True c1 c2 ramais show ?thesis
          by (simp add: updateStatus_try_def Let_def)
      qed
    qed
  qed
qed

lemma updateStatus_run_releases:
  assumes pos: "0 < ARGUS_CONCURRENCY env"
  shows "\<exists>res st' sent'. updateStatus_run env tfail (st, sent) = Some (res, st', sent')
                          \<and> \<not> isFetching st'"
proof -
  from updateStatus_try_returns [OF pos] obtain r st1 sent1 where
    t: "updateStatus_try env (st, sent) = Some (r, st1, sent1)" by blast
  show ?thesis
  proof (cases r)
    case (Inr res)
    with t show ?thesis by (simp add: updateStatus_run_def)
  next
    case (Inl err)
    obtain msg where "err = Error msg" by (cases err)
    with Inl t show ?thesis by (simp add: updateStatus_run_def Let_def)
  qed
qed

lemma updateStatus_run_failure:
  assumes "updateStatus_try env (st, sent) = Some (Inl (Error msg), st1, sent1)"
  shows "\<exists>st'. updateStatus_run env tfail (st, sent) =
            Some (Updated 0 None (Some (if msg = [] then errorString (Error msg) else msg)), st', sent1)
          \<and> \<not> isFetching st'
          \<and> failCount st' = min (failCount st1 + 1) 6
          \<and> nextAllowedAt st' = tfail + ms (min (15 * 2 ^ (min (failCount st1 + 1) 6 - 1)) 300)"
  using assms by (simp add: updateStatus_run_def Let_def increaseBackoff_def)

lemma updateStatus_skipped_when_latched:
  assumes "argusAuthFailed st"
  shows "\<exists>reason wait. updateStatusOperadores env t tfail (st, sent)
           = Some (Skipped reason wait, st, sent)"
  using assms by (simp add: updateStatusOperadores_def updateStatus_guard_def)

text \<open>
  Claim C4. If a call of \<open>fetchArgusForRamal\<close> receives a response with status 403 among
  the requests it sends, it returns \<open>null\<close> and leaves \<open>_argusAuthFailed\<close> set; from then
  on every call that starts, whatever its ramal and whatever the API would answer, sends no
  request, returns \<open>null\<close> and leaves the state as it is, so the flag stays set. With the
  flag set \<open>updateStatusOperadores\<close> is skipped as well and sends nothing. Nothing in
  the controller clears the flag.
\<close>

theorem argus_403_latch:
  "(fetchArgusForRamal env ramal (st, sent) = (r, st', sent') \<and>
      (\<exists>k < sent' - sent. is403 (argusGet env ramal k)) \<longrightarrow>
        r = None \<and> argusAuthFailed st' \<and>
        fetchArgusSeq env2 calls (st', sent2) = (replicate (length calls) None, st', sent2))
   \<and> (argusAuthFailed st \<longrightarrow>
        fetchArgusForRamal env ramal (st, sent) = (None, st, sent) \<and>
        fetchArgusSeq env calls (st, sent) = (replicate (length calls) None, st, sent) \<and>
        (\<exists>reason wait. updateStatusOperadores env t tfail (st, sent)
                          = Some (Skipped reason wait, st, sent)))"
proof (intro conjI impI)
  assume a: "fetchArgusForRamal env ramal (st, sent) = (r, st', sent') \<and>
      (\<exists>k < sent' - sent. is403 (argusGet env ramal k))"
  then obtain k where k: "k < sent' - sent" "is403 (argusGet env ramal k)" by blast
  have guard: "argusGuard env st ramal"
  proof (rule ccontr)
    assume "\<not> argusGuard env st ramal"
    with a have "sent' = sent" by (simp add: fetchArgusForRamal_def)
    with k show False by simp
  qed
  with a have "argusLoop env ramal 0 (st, sent) = (r, st', sent')"
    by (simp add: fetchArgusForRamal_def)
  from argusLoop_403 [OF this] k have res: "r = None \<and> argusAuthFailed st'" by auto
  then show "r = None" "argusAuthFailed st'" by simp_all
  from res show "fetchArgusSeq env2 calls (st', sent2) = (replicate (length calls) None, st', sent2)"
    by (simp add: fetchArgusSeq_latched)
next
  assume "argusAuthFailed st"
  then show "fetchArgusForRamal env ramal (st, sent) = (None, st, sent)"
    "fetchArgusSeq env calls (st, sent) = (replicate (length calls) None, st, sent)"
    "\<exists>reason wait. updateStatusOperadores env t tfail (st, sent)
                          = Some (Skipped reason wait, st, sent)"
    by (simp_all add: fetch_latched fetchArgusSeq_latched updateStatus_skipped_when_latched)
qed

lemma demo_fetch_403:
  "fetchArgusForRamal demoStatusEnv ''1001'' (initialStatusState, 0)
     = (None, initialStatusState\<lparr>argusAuthFailed := True\<rparr>, 2)"
  by (simp add: fetchArgusForRamal_def argusGuard_def orElse_def demoStatusEnv_def
        initialStatusState_def argusLoop.simps)

theorem argus_403_latch_witness:
  "fetchArgusSeq demoStatusEnv [(''1002'', okResponses), (''1003'', okResponses)]
     (initialStatusState\<lparr>argusAuthFailed := True\<rparr>, 2)
   = ([None, None], initialStatusState\<lparr>argusAuthFailed := True\<rparr>, 2)"
proof -
  have seen: "\<exists>k < 2 - (0 :: nat). is403 (argusGet demoStatusEnv ''1001'' k)"
    by (intro exI [of _ 1]) (simp add: is403_def demoStatusEnv_def)
  from argus_403_latch [of demoStatusEnv "''1001''" initialStatusState 0 None
      "initialStatusState\<lparr>argusAuthFailed := True\<rparr>" 2 demoStatusEnv
      "[(''1002'', okResponses), (''1003'', okResponses)]" 2]
    demo_fetch_403 seen
  show ?thesis by simp
qed

text \<open>
  Claim C10, as amended. With a positive \<open>ARGUS_CONCURRENCY\<close>: a call that one of the
  guards skips returns its \<open>skipped\<close> object and leaves the state untouched; a call that
  passes the guards, and every call made while no refresh is in flight, returns a result
  object with \<open>isFetching = false\<close>, on success and on failure alike, so that no later
  call is skipped as in-flight because of it. When the \<open>try\<close> block throws, the call
  still returns a result object \<open>{updated: 0, error}\<close>, with the backoff increased.
\<close>

theorem updateStatus_releases_flag:
  assumes pos: "0 < ARGUS_CONCURRENCY env"
  shows "(\<forall>skipped. updateStatus_guard env t st = Some skipped \<longrightarrow>
            updateStatusOperadores env t tfail (st, sent) = Some (skipped, st, sent))
    \<and> (updateStatus_guard env t st = None \<or> \<not> isFetching st \<longrightarrow>
          (\<exists>res st' sent'. updateStatusOperadores env t tfail (st, sent) = Some (res, st', sent')
              \<and> \<not> isFetching st'
              \<and> (\<forall>t2. updateStatus_guard env t2 st' \<noteq> Some (Skipped ''in-flight'' None))))
    \<and> (\<forall>msg st1 sent1.
          updateStatus_guard env t st = None \<and>
          updateStatus_try env (st\<lparr>isFetching := True\<rparr>, sent) = Some (Inl (Error msg), st1, sent1) \<longrightarrow>
          (\<exists>err st'. updateStatusOperadores env t tfail (st, sent)
                        = Some (Updated 0 None (Some err), st', sent1)
             \<and> \<not> isFetching st'
             \<and> failCount st' = min (failCount st1 + 1) 6
             \<and> nextAllowedAt st' = tfail + ms (min (15 * 2 ^ (min (failCount st1 + 1) 6 - 1)) 300)))"
proof (intro conjI allI impI)
  fix skipped assume "updateStatus_guard env t st = Some skipped"
  then show "updateStatusOperadores env t tfail (st, sent) = Some (skipped, st, sent)"
    by (simp add: updateStatusOperadores_def)
next
  assume g: "updateStatus_guard env t st = None \<or> \<not> isFetching st"
  have noInflight: "\<forall>t2. updateStatus_guard env t2 s \<noteq> Some (Skipped ''in-flight'' None)"
    if "\<not> isFetching s" for s
    using that by (simp add: updateStatus_guard_def)
  show "\<exists>res st' sent'. updateStatusOperadores env t tfail (st, sent) = Some (res, st', sent')
              \<and> \<not> isFetching st'
              \<and> (\<forall>t2. updateStatus_guard env t2 st' \<noteq> Some (Skipped ''in-flight'' None))"
  proof (cases "updateStatus_guard env t st")
    case None
    from updateStatus_run_releases [OF pos, of tfail "st\<lparr>isFetching := True\<rparr>" sent]
    obtain res st' sent' where
      "updateStatus_run env tfail (st\<lparr>isFetching := True\<rparr>, sent) = Some (res, st', sent')"
      "\<not> isFetching st'" by blast
    with None noInflight [of st'] show ?thesis
      by (simp add: updateStatusOperadores_def)
  next
    case (Some skipped)
    with g have idle: "\<not> isFetching st" by simp
    from Some have "updateStatusOperadores env t tfail (st, sent) = Some (skipped, st, sent)"
      by (simp add: updateStatusOperadores_def)
    with idle noInflight [of st] show ?thesis by simp
  qed
next
  fix msg st1 sent1
  assume a: "updateStatus_guard env t st = None \<and>
          updateStatus_try env (st\<lparr>isFetching := True\<rparr>, sent) = Some (Inl (Error msg), st1, sent1)"
  from updateStatus_run_failure [of env "st\<lparr>isFetching := True\<rparr>" sent msg st1 sent1 tfail] a
  show "\<exists>err st'. updateStatusOperadores env t tfail (st, sent)
                        = Some (Updated 0 None (Some err), st', sent1)
             \<and> \<not> isFetching st'
             \<and> failCount st' = min (failCount st1 + 1) 6
             \<and> nextAllowedAt st' = tfail + ms (min (15 * 2 ^ (min (failCount st1 + 1) 6 - 1)) 300)"
    by (auto simp: updateStatusOperadores_def)
qed

theorem updateStatus_releases_flag_witness:
  "\<exists>res st' sent'.
     updateStatusOperadores demoStatusEnv 1000 1005 (initialStatusState, 0) = Some (res, st', sent')
     \<and> \<not> isFetching st' \<and> failCount st' = 1 \<and> nextAllowedAt st' = 16005"
proof -
  have pos: "0 < ARGUS_CONCURRENCY demoStatusEnv" by (simp add: demoStatusEnv_def)
  have g: "updateStatus_guard demoStatusEnv 1000 initialStatusState = None"
    by (simp add: updateStatus_guard_def demoStatusEnv_def initialStatusState_def orElse_def)
  have t: "updateStatus_try demoStatusEnv (initialStatusState\<lparr>isFetching := True\<rparr>, 0)
             = Some (Inl (Error ''connect ETIMEDOUT''), initialStatusState\<lparr>isFetching := True\<rparr>, 0)"
    by (simp add: updateStatus_try_def demoStatusEnv_def)
  have fc: "failCount (initialStatusState\<lparr>isFetching := True\<rparr>) = 0"
    by (simp add: initialStatusState_def)
  from updateStatus_releases_flag [OF pos, of 1000 initialStatusState 1005 0] g t
  obtain err st' where
    "updateStatusOperadores demoStatusEnv 1000 1005 (initialStatusState, 0)
       = Some (Updated 0 None (Some err), st', 0)"
    "\<not> isFetching st'"
    "failCount st' = min (failCount (initialStatusState\<lparr>isFetching := True\<rparr>) + 1) 6"
    "nextAllowedAt st' = 1005 + ms (min (15 * 2 ^ (min (failCount (initialStatusState\<lparr>isFetching := True\<rparr>) + 1) 6 - 1)) 300)"
    by blast
  with fc show ?thesis by (auto simp: ms_def)
qed

text \<open>
  The claim as stated fails for a call that arrives while a refresh is in flight: it returns
  \<open>{skipped: true, reason: 'in-flight'}\<close> with \<open>isFetching\<close> still true. And with
  \<open>ARGUS_CONCURRENCY = 0\<close> the loop of \<open>processBatch\<close> never ends once there is a
  ramal to query, so the call never returns.
\<close>

theorem updateStatus_flag_counterexample:
  "updateStatusOperadores demoStatusEnv 1000 1005 (initialStatusState\<lparr>isFetching := True\<rparr>, 0)
     = Some (Skipped ''in-flight'' None, initialStatusState\<lparr>isFetching := True\<rparr>, 0)
   \<and> isFetching (initialStatusState\<lparr>isFetching := True\<rparr>)
   \<and> updateStatusOperadores stuckStatusEnv 1000 1005 (initialStatusState, 0) = None"
proof -
  have skip: "updateStatusOperadores demoStatusEnv 1000 1005 (initialStatusState\<lparr>isFetching := True\<rparr>, 0)
     = Some (Skipped ''in-flight'' None, initialStatusState\<lparr>isFetching := True\<rparr>, 0)"
    by (simp add: updateStatusOperadores_def updateStatus_guard_def initialStatusState_def)
  have "updateStatus_try stuckStatusEnv (initialStatusState\<lparr>isFetching := True\<rparr>, 0) = None"
    by (simp add: updateStatus_try_def detectColumns_def parseTableName_def
          processBatch_diverges stuckStatusEnv_def demoStatusEnv_def initialStatusState_def
          toLowerCase_def toLowerChar_def Let_def)
  then have "updateStatusOperadores stuckStatusEnv 1000 1005 (initialStatusState, 0) = None"
    by (simp add: updateStatusOperadores_def updateStatus_guard_def updateStatus_run_def
          stuckStatusEnv_def demoStatusEnv_def initialStatusState_def orElse_def)
  with skip show ?thesis by simp
qed

section \<open>Coherence of the cache cells\<close>

lemma idle_coherent: "idle c \<Longrightarrow> coherent c"
  by (simp add: idle_def coherent_def)

lemma rankingKey_orElse: "rankingKey env (orElse q (DEFAULT_EMPRESA env)) = orElse q (DEFAULT_EMPRESA env)"
  by (simp add: rankingKey_def orElse_def split: option.splits)

lemma setRankingCache_idle:
  "\<forall>k c. rankingCacheMap st k = Some c \<longrightarrow> k \<noteq> key \<longrightarrow> idle c \<Longrightarrow>
   \<forall>k c. rankingCacheMap (setRankingCache key rows tset st) k = Some c \<longrightarrow> idle c"
  by (auto simp: setRankingCache_def idle_def)

lemma updateRanking_try_idle:
  assumes "updateRanking_try env key tset st = Inr (rows, st')"
    and "\<forall>k c. rankingCacheMap st k = Some c \<longrightarrow> k \<noteq> key \<longrightarrow> idle c"
  shows "(\<forall>k c. rankingCacheMap st' k = Some c \<longrightarrow> k \<noteq> key \<longrightarrow> idle c)
       \<and> (rankingCacheMap st' key = rankingCacheMap st key
            \<or> (\<exists>c. rankingCacheMap st' key = Some c \<and> idle c))"
proof -
  have set_case: "(\<forall>k c. rankingCacheMap (setRankingCache key r tset st) k = Some c \<longrightarrow> k \<noteq> key \<longrightarrow> idle c)
       \<and> (\<exists>c. rankingCacheMap (setRankingCache key r tset st) key = Some c \<and> idle c)" for r
    using assms(2) by (auto simp: setRankingCache_def idle_def)
  have err_case: "(\<forall>k c. rankingCacheMap (st\<lparr>lastErrorMap := m\<rparr>) k = Some c \<longrightarrow> k \<noteq> key \<longrightarrow> idle c)
       \<and> rankingCacheMap (st\<lparr>lastErrorMap := m\<rparr>) key = rankingCacheMap st key" for m
    using assms(2) by simp
  from assms(1) consider r where "st' = setRankingCache key r tset st"
    | m where "st' = st\<lparr>lastErrorMap := m\<rparr>"
    by (auto simp: updateRanking_try_def Let_def
             split: sum.splits bool.splits if_splits option.splits)
  then show ?thesis
  proof cases
    case 1
    with set_case [of r] show ?thesis by blast
  next
    case 2
    with err_case [of m] show ?thesis by simp
  qed
qed

lemma updateRanking_idle:
  assumes "updateRanking env empresa tset st = (rows, st')"
    and "\<forall>k c. rankingCacheMap st k = Some c \<longrightarrow> k \<noteq> rankingKey env empresa \<longrightarrow> idle c"
  shows "(\<forall>k c. rankingCacheMap st' k = Some c \<longrightarrow> k \<noteq> rankingKey env empresa \<longrightarrow> idle c)
       \<and> (rankingCacheMap st' (rankingKey env empresa) = rankingCacheMap st (rankingKey env empresa)
            \<or> (\<exists>c. rankingCacheMap st' (rankingKey env empresa) = Some c \<and>
                    (idle c \<or> (\<exists>c0. rankingCacheMap st (rankingKey env empresa) = Some c0 \<and>
                                     c = c0\<lparr>cell_isFetching := False\<rparr>))))"
proof (cases "updateRanking_try env (rankingKey env empresa) tset st")
  case (Inr r)
  obtain rows1 st1 where r: "r = (rows1, st1)" by (cases r)
  with Inr assms(1) have "st' = st1" by (simp add: updateRanking_def updateRanking_catch_def updateRanking_lastResort_def Let_def)
  with updateRanking_try_idle [OF Inr [unfolded r] assms(2)] show ?thesis by blast
next
  case (Inl err)
  let ?key = "rankingKey env empresa"
  let ?st1 = "st\<lparr>lastErrorMap := (lastErrorMap st)(?key \<mapsto> err)\<rparr>"
  let ?st2 = "case rankingCacheMap ?st1 ?key of None \<Rightarrow> ?st1
              | Some c \<Rightarrow> ?st1\<lparr>rankingCacheMap := (rankingCacheMap ?st1)(?key \<mapsto> c\<lparr>cell_isFetching := False\<rparr>)\<rparr>"
  from Inl assms(1) have st': "st' = ?st2"
    by (auto simp: updateRanking_def updateRanking_catch_def updateRanking_lastResort_def Let_def split: option.splits if_splits)
  show ?thesis
  proof (cases "rankingCacheMap st ?key")
    case None
    with st' assms(2) show ?thesis by simp
  next
    case (Some c0)
    with st' assms(2) show ?thesis by auto
  qed
qed

lemma updateRanking_keeps_idle:
  assumes "\<forall>k c. rankingCacheMap st k = Some c \<longrightarrow> idle c"
  shows "\<forall>k c. rankingCacheMap (snd (updateRanking env empresa tset st)) k = Some c \<longrightarrow> idle c"
proof -
  obtain rows st' where u: "updateRanking env empresa tset st = (rows, st')"
    by (cases "updateRanking env empresa tset st")
  from assms have others: "\<forall>k c. rankingCacheMap st k = Some c \<longrightarrow> k \<noteq> rankingKey env empresa \<longrightarrow> idle c"
    by blast
  let ?key = "rankingKey env empresa"
  from updateRanking_idle [OF u others]
  have rest: "\<forall>k c. rankingCacheMap st' k = Some c \<longrightarrow> k \<noteq> ?key \<longrightarrow> idle c"
    and here: "rankingCacheMap st' ?key = rankingCacheMap st ?key
            \<or> (\<exists>c. rankingCacheMap st' ?key = Some c \<and>
                    (idle c \<or> (\<exists>c0. rankingCacheMap st ?key = Some c0 \<and>
                                     c = c0\<lparr>cell_isFetching := False\<rparr>)))"
    by blast+
  have "idle c" if c: "rankingCacheMap st' k = Some c" for k c
  proof (cases "k = ?key")
    case False
    with rest c show ?thesis by blast
  next
    case True
    from here show ?thesis
    proof (elim disjE exE conjE)
      assume "rankingCacheMap st' ?key = rankingCacheMap st ?key"
      with c True assms show ?thesis by simp
    next
      fix c' assume "rankingCacheMap st' ?key = Some c'" "idle c'"
      with c True show ?thesis by simp
    next
      fix c' c0 assume "rankingCacheMap st' ?key = Some c'"
        "rankingCacheMap st ?key = Some c0" "c' = c0\<lparr>cell_isFetching := False\<rparr>"
      with c True assms show ?thesis by (auto simp: idle_def)
    qed
  qed
  with u show ?thesis by simp
qed

lemma getRanking_fetch_idle:
  assumes key: "rankingKey env key = key"
    and others: "\<forall>k c. rankingCacheMap st k = Some c \<longrightarrow> k \<noteq> key \<longrightarrow> idle c"
  shows "\<forall>k c. rankingCacheMap (snd (getRanking_fetch env key tset st)) k = Some c \<longrightarrow> idle c"
proof -
  obtain rows st1 where u: "updateRanking env key tset st = (rows, st1)"
    by (cases "updateRanking env key tset st")
  from updateRanking_idle [OF u] others key
  have rest: "\<forall>k c. rankingCacheMap st1 k = Some c \<longrightarrow> k \<noteq> key \<longrightarrow> idle c" by simp
  show ?thesis
  proof (cases "rankingCacheMap st1 key")
    case None
    with u have "snd (getRanking_fetch env key tset st) = st1"
      by (simp add: getRanking_fetch_def getRanking_finally_def)
    with rest None show ?thesis by (metis option.distinct(1))
  next
    case (Some c)
    with u have "snd (getRanking_fetch env key tset st)
        = st1\<lparr>rankingCacheMap := (rankingCacheMap st1)
              (key \<mapsto> c\<lparr>cell_isFetching := False, cell_fetchPromise := None\<rparr>)\<rparr>"
      by (simp add: getRanking_fetch_def getRanking_finally_def)
    with rest show ?thesis by (auto simp: idle_def)
  qed
qed

lemma getRanking_keeps_idle:
  assumes "\<forall>k c. rankingCacheMap st k = Some c \<longrightarrow> idle c"
  shows "\<forall>k c. rankingCacheMap (snd (getRanking env tnow tset empresaQ settledOf st)) k = Some c
           \<longrightarrow> idle c"
proof -
  let ?key = "orElse empresaQ (DEFAULT_EMPRESA env)"
  obtain e st1 where en: "getRanking_enter env tnow empresaQ st = (e, st1)"
    by (cases "getRanking_enter env tnow empresaQ st")
  have noJoin: "(case rankingCacheMap st ?key of None \<Rightarrow> None
                 | Some c \<Rightarrow> (if cell_isFetching c
                     then (case cell_fetchPromise c of None \<Rightarrow> None | Some p \<Rightarrow> Some (p, c))
                     else None)) = None"
    using assms by (auto simp: idle_def split: option.splits)
  show ?thesis
  proof (cases e)
    case (Hit d)
    with en have "st1 = st"
      by (auto simp: getRanking_enter_def Let_def noJoin split: option.splits if_splits)
    with en Hit assms show ?thesis by (simp add: getRanking_def Let_def)
  next
    case (Join p c)
    with en have "st1 = st"
      by (auto simp: getRanking_enter_def Let_def noJoin split: option.splits if_splits)
    with en Join assms show ?thesis by (simp add: getRanking_def Let_def)
  next
    case (Start p)
    with en have "\<forall>k c. rankingCacheMap st1 k = Some c \<longrightarrow> k \<noteq> ?key \<longrightarrow> idle c"
      using assms
      by (auto simp: getRanking_enter_def Let_def noJoin split: option.splits if_splits)
    from getRanking_fetch_idle [OF rankingKey_orElse this, of tset]
    have "\<forall>k c. rankingCacheMap (snd (getRanking_fetch env ?key tset st1)) k = Some c \<longrightarrow> idle c" .
    with en Start show ?thesis
      by (simp add: getRanking_def Let_def split: prod.splits)
  qed
qed

lemma getEmpresas_success_idle:
  assumes "emp_localPool env = Inr True" "queryEmpresas env = Inr rows"
    and "idle (empresasCache st)"
  shows "idle (empresasCache (snd (getEmpresas env tnow tset settledOf st)))"
  using assms
  by (auto simp: getEmpresas_def getEmpresas_enter_def updateEmpresas_def idle_def Let_def
           split: option.splits if_splits)

text \<open>
  Claim C5, on the company cell. From the initial cell \<open>{data: null, ts: 0, isFetching:
  false, fetchPromise: null}\<close>, which is coherent, one request \<open>GET /companies\<close> whose
  refresh fails (the local pool is \<open>null\<close>) is answered with \<open>[]\<close> and leaves the cell
  with \<open>isFetching = false\<close> and \<open>fetchPromise\<close> still holding the settled promise: the
  \<open>catch\<close> clause of \<open>updateEmpresas\<close> clears only \<open>isFetching\<close>. A refresh that fails
  because \<open>getLocalPool()\<close> rejects leaves the same cell. The ranking cells stay
  idle from one completed \<open>getRanking\<close> or \<open>updateRanking\<close> to the next (lemmas
  \<open>getRanking_keeps_idle\<close> and \<open>updateRanking_keeps_idle\<close>), and so does the company cell
  when the refresh succeeds (\<open>getEmpresas_success_idle\<close>).
\<close>

theorem getEmpresas_failure_incoherent:
  "coherent (empresasCache initialEmpresasState)
   \<and> getEmpresas downEmpresasEnv 1000 1005 (\<lambda>p. Inr []) initialEmpresasState
       = (json [],
          initialEmpresasState
            \<lparr>empresasCache := \<lparr>cell_data = None, cell_ts = 0, cell_isFetching = False,
                                cell_fetchPromise = Some 0\<rparr>,
             emp_lastError := Some (Error (''Pool LOCAL indispon'' @ [CHR 0xED] @ ''vel'')),
             emp_promises := 1\<rparr>)
   \<and> \<not> coherent (empresasCache
          (snd (getEmpresas downEmpresasEnv 1000 1005 (\<lambda>p. Inr []) initialEmpresasState)))
   \<and> empresasCache
          (snd (getEmpresas rejectedEmpresasEnv 1000 1005 (\<lambda>p. Inr []) initialEmpresasState))
       = \<lparr>cell_data = None, cell_ts = 0, cell_isFetching = False, cell_fetchPromise = Some 0\<rparr>"
  by (simp add: coherent_def getEmpresas_def getEmpresas_enter_def updateEmpresas_def
        initialEmpresasState_def downEmpresasEnv_def rejectedEmpresasEnv_def Let_def)

section \<open>Degrading instead of failing\<close>















section \<open>Single flight\<close>

lemma enterAllRanking_joins:
  assumes "rankingCacheMap st key = Some c" "cell_isFetching c" "cell_fetchPromise c = Some p"
    and "\<forall>(tnow, q) \<in> set callers.
           orElse q (DEFAULT_EMPRESA env) = key \<and> \<not> rankingFresh env tnow st key"
  shows "enterAllRanking env callers st = (replicate (length callers) (Join p c), st)"
  using assms(4)
proof (induction callers)
  case Nil
  show ?case by simp
next
  case (Cons a callers)
  obtain tnow q where a: "a = (tnow, q)" by (cases a)
  with Cons.prems have k: "orElse q (DEFAULT_EMPRESA env) = key"
    and nf: "\<not> rankingFresh env tnow st key" by auto
  have "getRanking_enter env tnow q st = (Join p c, st)"
    using assms(1-3) k nf
    by (auto simp: getRanking_enter_def rankingFresh_def Let_def split: option.splits)
  moreover from Cons have "enterAllRanking env callers st
      = (replicate (length callers) (Join p c), st)" by simp
  ultimately show ?case by (simp add: a)
qed

lemma getRanking_start_cell:
  assumes "getRanking_enter env t0 q0 st0 = (Start p, st)"
  shows "\<exists>c. rankingCacheMap st (orElse q0 (DEFAULT_EMPRESA env)) = Some c
             \<and> cell_isFetching c \<and> cell_fetchPromise c = Some p
             \<and> promisesStarted st = promisesStarted st0 + 1
             \<and> (\<forall>tnow. t0 \<le> tnow \<longrightarrow>
                   \<not> rankingFresh env tnow st (orElse q0 (DEFAULT_EMPRESA env)))"
proof -
  let ?key = "orElse q0 (DEFAULT_EMPRESA env)"
  let ?c = "\<lparr>cell_data = cellData (rankingCacheMap st0 ?key),
            cell_ts = (case rankingCacheMap st0 ?key of None \<Rightarrow> 0 | Some c \<Rightarrow> cell_ts c),
            cell_isFetching = True, cell_fetchPromise = Some (promisesStarted st0)\<rparr>"
  from assms have st: "st = st0\<lparr>rankingCacheMap := (rankingCacheMap st0)(?key \<mapsto> ?c),
                                 promisesStarted := promisesStarted st0 + 1\<rparr>"
    and p: "p = promisesStarted st0"
    by (auto simp: getRanking_enter_def Let_def split: option.splits if_splits)
  have stale: "\<not> rankingFresh env tnow st ?key" if "t0 \<le> tnow" for tnow
  proof (cases "rankingCacheMap st0 ?key")
    case None
    with st show ?thesis by (simp add: rankingFresh_def cellData_def)
  next
    case (Some c0)
    show ?thesis
    proof (cases "cell_data c0")
      case None
      with Some st show ?thesis by (simp add: rankingFresh_def cellData_def)
    next
      case (Some d)
      with assms \<open>rankingCacheMap st0 ?key = Some c0\<close>
      have "\<not> t0 - cell_ts c0 < CACHE_MS env"
        by (auto simp: getRanking_enter_def Let_def split: option.splits if_splits)
      with that have "\<not> tnow - cell_ts c0 < CACHE_MS env" by simp
      with \<open>rankingCacheMap st0 ?key = Some c0\<close> st show ?thesis
        by (simp add: rankingFresh_def cellData_def)
    qed
  qed
  from st p stale show ?thesis by auto
qed

lemma argus_enter_queued:
  assumes "svc_isFetching st" "force \<or> argusCacheMiss tnow st"
  shows "\<exists>st'. fetchArgusData_enter force tnow st = (Queued (svc_waiters st), st')
           \<and> svc_queue st' = svc_queue st @ [svc_waiters st]
           \<and> svc_waiters st' = svc_waiters st + 1
           \<and> svc_isFetching st'
           \<and> totalRequests (svc_metrics st') = totalRequests (svc_metrics st)
           \<and> (\<forall>t. argusCacheMiss t st \<longrightarrow> argusCacheMiss t st')"
proof -
  obtain r cs where g: "cache_get tnow CACHE_KEY (svc_cache st) = (r, cs)"
    by (cases "cache_get tnow CACHE_KEY (svc_cache st)")
  have keep: "map_of (cache_map cs) CACHE_KEY = None
              \<or> map_of (cache_map cs) CACHE_KEY = map_of (cache_map (svc_cache st)) CACHE_KEY"
    using g by (auto simp: cache_get_def Let_def delete_conv' split: option.splits if_splits)
  have miss: "r = None" if "argusCacheMiss tnow st"
    using that g by (auto simp: argusCacheMiss_def cache_get_def Let_def split: option.splits if_splits)
  have sel: "(if force then None else fst (getCachedData tnow st)) = None"
    using assms(2) miss g by (auto simp: getCachedData_def split: option.splits)
  obtain cd st1 where gc: "getCachedData tnow st = (cd, st1)" by (cases "getCachedData tnow st")
  with g have st1: "svc_cache st1 = cs" "svc_isFetching st1 = svc_isFetching st"
    "svc_queue st1 = svc_queue st" "svc_waiters st1 = svc_waiters st"
    "totalRequests (svc_metrics st1) = totalRequests (svc_metrics st)"
    by (auto simp: getCachedData_def split: option.splits)
  from sel gc have sel': "(if force then None else cd) = None" by (cases force) simp_all
  let ?st' = "st1\<lparr>svc_queue := svc_queue st1 @ [svc_waiters st1],
                   svc_waiters := svc_waiters st1 + 1,
                   svc_metrics := (svc_metrics st1)
                     \<lparr>queuedWaits := queuedWaits (svc_metrics st1) + 1\<rparr>\<rparr>"
  have "fetchArgusData_enter force tnow st = (Queued (svc_waiters st), ?st')"
    using gc sel' st1 assms(1) by (simp add: fetchArgusData_enter_def Let_def)
  moreover have "\<forall>t. argusCacheMiss t st \<longrightarrow> argusCacheMiss t ?st'"
    using keep st1(1) by (auto simp: argusCacheMiss_def split: option.splits)
  ultimately show ?thesis using st1 assms(1) by simp
qed

lemma enterAllArgus_queued:
  assumes "svc_isFetching st"
    and "\<forall>(force, tnow) \<in> set callers. force \<or> argusCacheMiss tnow st"
  shows "\<exists>st'. enterAllArgus callers st
             = (map Queued [svc_waiters st ..< svc_waiters st + length callers], st')
           \<and> svc_queue st' = svc_queue st @ [svc_waiters st ..< svc_waiters st + length callers]
           \<and> svc_isFetching st'
           \<and> totalRequests (svc_metrics st') = totalRequests (svc_metrics st)"
  using assms
proof (induction callers arbitrary: st)
  case Nil
  then show ?case by simp
next
  case (Cons a callers)
  obtain force tnow where a: "a = (force, tnow)" by (cases a)
  with Cons.prems have h: "force \<or> argusCacheMiss tnow st" by auto
  from argus_enter_queued [OF Cons.prems(1) h] obtain st1 where
    e: "fetchArgusData_enter force tnow st = (Queued (svc_waiters st), st1)"
    and q: "svc_queue st1 = svc_queue st @ [svc_waiters st]"
    and w: "svc_waiters st1 = svc_waiters st + 1"
    and f: "svc_isFetching st1"
    and r: "totalRequests (svc_metrics st1) = totalRequests (svc_metrics st)"
    and m: "\<forall>t. argusCacheMiss t st \<longrightarrow> argusCacheMiss t st1"
    by blast
  from Cons.prems(2) m have "\<forall>(force, tnow) \<in> set callers. force \<or> argusCacheMiss tnow st1"
    by auto
  from Cons.IH [OF f this] obtain st2 where
    rest: "enterAllArgus callers st1
             = (map Queued [svc_waiters st1 ..< svc_waiters st1 + length callers], st2)"
    and q2: "svc_queue st2 = svc_queue st1 @ [svc_waiters st1 ..< svc_waiters st1 + length callers]"
    and f2: "svc_isFetching st2"
    and r2: "totalRequests (svc_metrics st2) = totalRequests (svc_metrics st1)"
    by blast
  have up: "[svc_waiters st ..< svc_waiters st + length (a # callers)]
            = svc_waiters st # [svc_waiters st1 ..< svc_waiters st1 + length callers]"
  proof -
    have "svc_waiters st < svc_waiters st + length (a # callers)" by simp
    then have "[svc_waiters st ..< svc_waiters st + length (a # callers)]
        = svc_waiters st # [Suc (svc_waiters st) ..< svc_waiters st + length (a # callers)]"
      by (rule upt_conv_Cons)
    moreover have "Suc (svc_waiters st) = svc_waiters st1" using w by simp
    moreover have "svc_waiters st + length (a # callers) = svc_waiters st1 + length callers"
      using w by simp
    ultimately show ?thesis by (simp only:)
  qed
  have "enterAllArgus (a # callers) st
          = (Queued (svc_waiters st)
               # map Queued [svc_waiters st1 ..< svc_waiters st1 + length callers], st2)"
    using e rest by (simp add: a)
  moreover have "svc_queue st2
          = svc_queue st @ svc_waiters st # [svc_waiters st1 ..< svc_waiters st1 + length callers]"
    using q q2 by simp
  ultimately show ?case
    unfolding up using f2 r r2 by (intro exI [of _ st2]) simp
qed

lemma argus_start_miss:
  assumes "fetchArgusData_enter False t0 st0 = (Requesting, st)"
  shows "svc_isFetching st \<and> (\<forall>t. argusCacheMiss t st)"
proof -
  obtain r cs where g: "cache_get t0 CACHE_KEY (svc_cache st0) = (r, cs)"
    by (cases "cache_get t0 CACHE_KEY (svc_cache st0)")
  from assms g have rn: "r = None" and st: "svc_cache st = cs" "svc_isFetching st"
    by (auto simp: fetchArgusData_enter_def getCachedData_def Let_def
             split: option.splits if_splits)
  from g rn have "map_of (cache_map cs) CACHE_KEY = None"
    by (auto simp: cache_get_def Let_def delete_conv' split: option.splits if_splits)
  with st show ?thesis by (simp add: argusCacheMiss_def)
qed

lemma argus_settle_delivers:
  "fetchArgusData_settle settled st
     = (settled, map (\<lambda>w. (w, settled)) (svc_queue st),
        st\<lparr>svc_queue := [], svc_isFetching := False\<rparr>)"
  by (simp add: fetchArgusData_settle_def)

text \<open>
  While the \<open>try\<close> block of a fetch is waiting, the cell is as \<open>getRanking_enter\<close> left
  it: every request for the key that enters then finds the cell fetching and waits for the
  promise of that fetch; it changes nothing, so no further fetch is started, and each of
  them answers with the rows the promise is fulfilled with.
\<close>

lemma getRanking_joins_marked_cell:
  assumes "getRanking_enter renv tstart qstart rstBefore = (Start p, rst)"
    and "\<forall>(tnow, q) \<in> set rcallers.
          orElse q (DEFAULT_EMPRESA renv) = orElse qstart (DEFAULT_EMPRESA renv) \<and> tstart \<le> tnow"
  shows "\<exists>c. rankingCacheMap rst (orElse qstart (DEFAULT_EMPRESA renv)) = Some c
         \<and> enterAllRanking renv rcallers rst = (replicate (length rcallers) (Join p c), rst)
         \<and> promisesStarted rst = promisesStarted rstBefore + 1
         \<and> (\<forall>rows. respondJoined (Inr rows) c = json rows)"
proof -
  let ?key = "orElse qstart (DEFAULT_EMPRESA renv)"
  from getRanking_start_cell [OF assms(1)] obtain c where
    c: "rankingCacheMap rst ?key = Some c" "cell_isFetching c" "cell_fetchPromise c = Some p"
    and n: "promisesStarted rst = promisesStarted rstBefore + 1"
    and stale: "\<forall>tnow. tstart \<le> tnow \<longrightarrow> \<not> rankingFresh renv tnow rst ?key"
    by blast
  from assms(2) stale have "\<forall>(tnow, q) \<in> set rcallers.
      orElse q (DEFAULT_EMPRESA renv) = ?key \<and> \<not> rankingFresh renv tnow rst ?key"
    by auto
  from enterAllRanking_joins [OF c this]
  have j: "enterAllRanking renv rcallers rst = (replicate (length rcallers) (Join p c), rst)" .
  have "\<forall>rows. respondJoined (Inr rows) c = json rows"
    by (simp add: respondJoined_def)
  with c(1) j n show ?thesis by blast
qed

text \<open>
  \<open>fetchArgusData\<close>: while a request is in flight, every caller that is not answered from
  the cache (it forces, or the cache holds no live entry, as is the case for every caller
  when the request in flight was itself started after a cache miss) is queued; no request is
  sent for it, and when the request in flight settles, that result, or that error, is handed
  to the caller that started it and to every queued caller alike. A caller that does not
  force while the cache still holds a live entry is answered from the cache, also when a
  forced request is in flight.
\<close>

lemma fetchArgusData_queues_callers:
  assumes "svc_isFetching ast"
    and "\<forall>(force, tnow) \<in> set acallers. force \<or> argusCacheMiss tnow ast"
  shows "\<exists>ast'. enterAllArgus acallers ast
                  = (map Queued [svc_waiters ast ..< svc_waiters ast + length acallers], ast')
           \<and> svc_isFetching ast'
           \<and> totalRequests (svc_metrics ast') = totalRequests (svc_metrics ast)
           \<and> svc_queue ast' = svc_queue ast @ [svc_waiters ast ..< svc_waiters ast + length acallers]
           \<and> fetchArgusData_settle settled ast'
               = (settled,
                  map (\<lambda>w. (w, settled))
                    (svc_queue ast @ [svc_waiters ast ..< svc_waiters ast + length acallers]),
                  ast'\<lparr>svc_queue := [], svc_isFetching := False\<rparr>)"
proof -
  from enterAllArgus_queued [OF assms] obtain ast' where
    e: "enterAllArgus acallers ast
          = (map Queued [svc_waiters ast ..< svc_waiters ast + length acallers], ast')"
    and q: "svc_queue ast' = svc_queue ast @ [svc_waiters ast ..< svc_waiters ast + length acallers]"
    and f': "svc_isFetching ast'"
    and r: "totalRequests (svc_metrics ast') = totalRequests (svc_metrics ast)"
    by blast
  have "fetchArgusData_settle settled ast'
               = (settled,
                  map (\<lambda>w. (w, settled))
                    (svc_queue ast @ [svc_waiters ast ..< svc_waiters ast + length acallers]),
                  ast'\<lparr>svc_queue := [], svc_isFetching := False\<rparr>)"
    unfolding argus_settle_delivers q ..
  with e q f' r show ?thesis by blast
qed

lemma fetchArgusData_cache_first:
  "fst (fetchArgusData_enter True 500 freshIdleArgus) = Requesting
   \<and> svc_isFetching (snd (fetchArgusData_enter True 500 freshIdleArgus))
   \<and> fst (fetchArgusData_enter False 1000 (snd (fetchArgusData_enter True 500 freshIdleArgus)))
       = Cached \<lparr>ad_data = 1, ad_cached = True, ad_timestamp = 1000\<rparr>
   \<and> svc_queue (snd (fetchArgusData_enter False 1000
                       (snd (fetchArgusData_enter True 500 freshIdleArgus)))) = []"
  by (simp add: fetchArgusData_enter_def getCachedData_def cache_get_def cache_set_def
        freshIdleArgus_def idleArgus_def cache_new_def CACHE_KEY_def Let_def)

text \<open>
  Claim C1, on the ranking handler. Request A (\<open>GET /api/ranking\<close> at 1000, nothing
  cached) starts fetch promise 0. Its \<open>colaboradores\<close> query times out; the outer \<open>catch\<close>
  of \<open>updateRanking\<close> sets \<open>isFetching = false\<close> on the cell and, as the cell holds no
  rows, waits for \<open>getRankingFromTable\<close>. Request B arrives during that wait, at 1010: the
  cell still has its \<open>fetchPromise\<close> but \<open>isFetching\<close> is false, so the test
  \<open>cache.isFetching && cache.fetchPromise\<close> fails and B starts fetch promise 1 while
  promise 0 is pending. When promise 0 ends, its \<open>finally\<close> block clears the cell that B
  has marked, so that a request C at 1020 starts a third fetch while that of B is pending.
  A is answered with the persisted ranking and B with the ranking its own fetch builds:
  two callers in flight together, two fetches, two different answers.
\<close>

theorem getRanking_second_fetch:
  "getRanking_enter vendedoresDownEnv 1000 None emptyRankingState = (Start 0, firstStarted)
   \<and> updateRanking_try vendedoresDownEnv ''VIEIRACRED'' 1005 firstStarted = Inl queryTimeout
   \<and> updateRanking_catch vendedoresDownEnv ''VIEIRACRED'' queryTimeout firstStarted
       = (None, firstCaught)
   \<and> rankingCacheMap firstCaught ''VIEIRACRED''
       = Some \<lparr>cell_data = None, cell_ts = 0, cell_isFetching = False, cell_fetchPromise = Some 0\<rparr>
   \<and> getRanking_enter recoveredEnv 1010 None firstCaught = (Start 1, secondStarted)
   \<and> promisesStarted secondStarted = 2
   \<and> updateRanking_lastResort vendedoresDownEnv ''VIEIRACRED'' = [persistedRow]
   \<and> getRanking_finally ''VIEIRACRED'' secondStarted = secondUnmarked
   \<and> respondStarted (Inr [persistedRow]) ''VIEIRACRED'' secondUnmarked = json [persistedRow]
   \<and> getRanking_enter recoveredEnv 1020 None secondUnmarked = (Start 2, thirdStarted)
   \<and> map row_id (fst (updateRanking recoveredEnv ''VIEIRACRED'' 1030 thirdStarted))
       = [''B'', ''C'', ''A'']
   \<and> map row_id [persistedRow] = [''B'']"
proof -
  have enterA: "getRanking_enter vendedoresDownEnv 1000 None emptyRankingState = (Start 0, firstStarted)"
    by (simp add: getRanking_enter_def vendedoresDownEnv_def demoRankingEnv_def
          emptyRankingState_def firstStarted_def orElse_def cellData_def Let_def)
  have tryA: "updateRanking_try vendedoresDownEnv ''VIEIRACRED'' 1005 firstStarted = Inl queryTimeout"
    by (simp add: updateRanking_try_def vendedoresDownEnv_def demoRankingEnv_def)
  have catchA: "updateRanking_catch vendedoresDownEnv ''VIEIRACRED'' queryTimeout firstStarted
       = (None, firstCaught)"
    by (simp add: updateRanking_catch_def rankingKey_def firstStarted_def firstCaught_def
          cellData_def Let_def)
  have cell: "rankingCacheMap firstCaught ''VIEIRACRED''
       = Some \<lparr>cell_data = None, cell_ts = 0, cell_isFetching = False, cell_fetchPromise = Some 0\<rparr>"
    by (simp add: firstCaught_def)
  have enterB: "getRanking_enter recoveredEnv 1010 None firstCaught = (Start 1, secondStarted)"
    by (simp add: getRanking_enter_def recoveredEnv_def demoRankingEnv_def firstCaught_def
          secondStarted_def orElse_def cellData_def Let_def)
  have two: "promisesStarted secondStarted = 2"
    by (simp add: secondStarted_def)
  have lastA: "updateRanking_lastResort vendedoresDownEnv ''VIEIRACRED'' = [persistedRow]"
    by (simp add: updateRanking_lastResort_def getRankingFromTable_def vendedoresDownEnv_def
          demoRankingEnv_def Let_def)
  have finallyA: "getRanking_finally ''VIEIRACRED'' secondStarted = secondUnmarked"
    by (simp add: getRanking_finally_def secondStarted_def secondUnmarked_def)
  have answerA: "respondStarted (Inr [persistedRow]) ''VIEIRACRED'' secondUnmarked = json [persistedRow]"
    by (simp add: respondStarted_def)
  have enterC: "getRanking_enter recoveredEnv 1020 None secondUnmarked = (Start 2, thirdStarted)"
    by (simp add: getRanking_enter_def recoveredEnv_def demoRankingEnv_def secondUnmarked_def
          thirdStarted_def orElse_def cellData_def Let_def)
  have answerB: "map row_id (fst (updateRanking recoveredEnv ''VIEIRACRED'' 1030 thirdStarted))
       = [''B'', ''C'', ''A'']"
    by (simp add: updateRanking_def updateRanking_try_def recoveredEnv_def demoRankingEnv_def
          rankingKey_def buildRanking_def topRows_def arraySort_def
          byValorDesc_def buildRow_def enumerate_eq_zip Let_def)
  have rowA: "map row_id [persistedRow] = [''B'']"
    by (simp add: persistedRow_def)
  from enterA tryA catchA cell enterB two lastA finallyA answerA enterC answerB rowA
  show ?thesis by (intro conjI)
qed

section \<open>Backoff on the refresh path\<close>

lemma parseTableName_colab: "parseTableName ''dbo.colaboradores'' = (''dbo'', ''colaboradores'')"
  by (simp add: parseTableName_def)

lemma parseTableName_status: "parseTableName ''dbo.status_operador'' = (''dbo'', ''status_operador'')"
  by (simp add: parseTableName_def)

lemma warn_batch:
  "processBatch warnStatusEnv [\<lparr>id_argus = ''1001'', rr_id_new = Some ''7''\<rparr>] 0 ([], st, 0)
   = (if argusAuthFailed st then Some ([], st, 0) else
     Some ([\<lparr>u_id_argus = ''1001'', u_descricaoStatus = ''Livre'', u_tempoStatusSegundos = 5,
             u_id_new = Some ''7''\<rparr>], st, 1))"
  apply (subst processBatch.simps)
  apply (subst processBatch.simps)
  apply (simp add: warnStatusEnv_def demoStatusEnv_def slice_def sliceIndex_def argusGuard_def
      orElse_def argusLoop.simps [of _ _ 0] okResponses_def parseArgus_def toUpdateItem_def Let_def)
  done

lemma warn_cols:
  "detectColumns warnStatusEnv ''dbo.colaboradores'' backedOffState
     = ({''id_argus''}, backedOffState\<lparr>colsCache := [''dbo.colaboradores'' \<mapsto> {''id_argus''}]\<rparr>)"
  "detectColumns warnStatusEnv ''dbo.status_operador''
       (backedOffState\<lparr>colsCache := [''dbo.colaboradores'' \<mapsto> {''id_argus''}]\<rparr>)
     = ({''nome''}, backedOffState\<lparr>colsCache := [''dbo.colaboradores'' \<mapsto> {''id_argus''},
                                                    ''dbo.status_operador'' \<mapsto> {''nome''}]\<rparr>)"
  by (simp_all add: detectColumns_def parseTableName_colab parseTableName_status warnStatusEnv_def backedOffState_def
        initialStatusState_def toLowerCase_def toLowerChar_def Let_def)

lemma warn_env:
  "localPool warnStatusEnv = Inr True"
  "TABELA_COLAB warnStatusEnv = ''dbo.colaboradores''"
  "TABELA_STATUS warnStatusEnv = ''dbo.status_operador''"
  "queryRamais warnStatusEnv = Inr [\<lparr>id_argus = ''1001'', rr_id_new = Some ''7''\<rparr>]"
  by (simp_all add: warnStatusEnv_def demoStatusEnv_def)

lemma warn_try:
  "updateStatus_try warnStatusEnv (backedOffState, 0)
     = Some (Inr (Updated 0 (Some ''status table sem id_argus'') None),
             backedOffState\<lparr>colsCache := [''dbo.colaboradores'' \<mapsto> {''id_argus''},
                                            ''dbo.status_operador'' \<mapsto> {''nome''}]\<rparr>, 1)"
proof -
  have na: "\<not> argusAuthFailed (backedOffState\<lparr>colsCache := m\<rparr>)" for m
    by (simp add: backedOffState_def initialStatusState_def)
  show ?thesis
    by (simp add: updateStatus_try_def warn_env warn_cols warn_batch na toLowerCase_def
          toLowerChar_def Let_def)
qed

lemma updateStatus_try_success_resets:
  assumes "updateStatus_try env (st, sent) = Some (Inr (Updated n None None), st', sent')"
  shows "failCount st' = 0 \<and> nextAllowedAt st' = 0"
proof -
  have reset: "failCount (resetBackoff s) = 0 \<and> nextAllowedAt (resetBackoff s) = 0" for s
    by (simp add: resetBackoff_def)
  from assms obtain s where "st' = resetBackoff s"
    by (auto simp: updateStatus_try_def Let_def
             split: sum.splits bool.splits prod.splits if_splits option.splits)
  with reset show ?thesis by simp
qed

text \<open>
  Claim C3, as amended. \<open>increaseBackoff\<close> stores the count \<open>min(failCount + 1, 6)\<close>, which
  is at least 1, and sets \<open>nextAllowedAt\<close> to the clock reading plus
  \<open>min(15 s * 2^(failCount - 1), 300 s)\<close>, the exponent being one less than the count it has
  just stored; because of the cap of 300 s this is \<open>min(15 s * 2^failCount, 300 s)\<close> for the
  count before the failure. \<open>resetBackoff\<close> sets both fields to 0. A refresh whose \<open>try\<close>
  block throws ends with the count and the delay of \<open>increaseBackoff\<close>; a refresh that
  returns without error and without warning ends with both fields at 0.
\<close>

theorem backoff_transitions:
  "failCount (increaseBackoff tnow st) = min (failCount st + 1) 6
   \<and> 1 \<le> failCount (increaseBackoff tnow st)
   \<and> nextAllowedAt (increaseBackoff tnow st) =
       tnow + ms (min (15 * 2 ^ (failCount (increaseBackoff tnow st) - 1)) 300)
   \<and> nextAllowedAt (increaseBackoff tnow st) = tnow + ms (min (15 * 2 ^ failCount st) 300)
   \<and> resetBackoff st = st\<lparr>failCount := 0, nextAllowedAt := 0\<rparr>
   \<and> (updateStatus_try env (st, sent) = Some (Inl (Error msg), st1, sent1) \<longrightarrow>
        (\<exists>res st'. updateStatus_run env tnow (st, sent) = Some (res, st', sent1)
           \<and> failCount st' = min (failCount st1 + 1) 6
           \<and> nextAllowedAt st' = tnow + ms (min (15 * 2 ^ (failCount st' - 1)) 300)))
   \<and> (updateStatus_try env (st, sent) = Some (Inr (Updated n None None), st1, sent1) \<longrightarrow>
        updateStatus_run env tnow (st, sent) = Some (Updated n None None, st1\<lparr>isFetching := False\<rparr>, sent1)
        \<and> failCount (st1\<lparr>isFetching := False\<rparr>) = 0
        \<and> nextAllowedAt (st1\<lparr>isFetching := False\<rparr>) = 0)"
proof -
  have fail: "\<exists>res st'. updateStatus_run env tnow (st, sent) = Some (res, st', sent1)
           \<and> failCount st' = min (failCount st1 + 1) 6
           \<and> nextAllowedAt st' = tnow + ms (min (15 * 2 ^ (failCount st' - 1)) 300)"
    if "updateStatus_try env (st, sent) = Some (Inl (Error msg), st1, sent1)"
    using updateStatus_run_failure [OF that, of tnow] by auto
  have ok: "updateStatus_run env tnow (st, sent) = Some (Updated n None None, st1\<lparr>isFetching := False\<rparr>, sent1)
        \<and> failCount (st1\<lparr>isFetching := False\<rparr>) = 0
        \<and> nextAllowedAt (st1\<lparr>isFetching := False\<rparr>) = 0"
    if "updateStatus_try env (st, sent) = Some (Inr (Updated n None None), st1, sent1)"
    using that updateStatus_try_success_resets [OF that] by (simp add: updateStatus_run_def)
  from backoff_functions [of tnow st] fail ok show ?thesis by blast
qed

theorem backoff_transitions_witness:
  "(\<exists>res st'. updateStatus_run demoStatusEnv 1005 (initialStatusState\<lparr>isFetching := True\<rparr>, 0)
                 = Some (res, st', 0)
        \<and> failCount st' = 1 \<and> nextAllowedAt st' = 16005)
   \<and> updateStatus_run quietStatusEnv 1005 (initialStatusState\<lparr>isFetching := True, failCount := 3, nextAllowedAt := 900\<rparr>, 0)
       = Some (Updated 0 None None,
               initialStatusState\<lparr>colsCache := [''dbo.colaboradores'' \<mapsto> {''id_argus'', ''nome'', ''empresa''},
                                                  ''dbo.status_operador'' \<mapsto> {''id_argus'', ''nome'', ''empresa''}]\<rparr>, 0)"
proof -
  let ?st = "initialStatusState\<lparr>isFetching := True\<rparr>"
  let ?st3 = "initialStatusState\<lparr>isFetching := True, failCount := 3, nextAllowedAt := 900\<rparr>"
  let ?cols = "[''dbo.colaboradores'' \<mapsto> {''id_argus'', ''nome'', ''empresa''},
                ''dbo.status_operador'' \<mapsto> {''id_argus'', ''nome'', ''empresa''}]"
  have t1: "updateStatus_try demoStatusEnv (?st, 0)
             = Some (Inl (Error ''connect ETIMEDOUT''), ?st, 0)"
    by (simp add: updateStatus_try_def demoStatusEnv_def)
  have fc: "failCount ?st = 0" by (simp add: initialStatusState_def)
  from backoff_transitions [where env = demoStatusEnv and st = ?st and sent = 0
      and msg = "''connect ETIMEDOUT''" and ?st1.0 = ?st and ?sent1.0 = 0 and tnow = 1005] t1
  obtain res st' where r: "updateStatus_run demoStatusEnv 1005 (?st, 0) = Some (res, st', 0)"
    "failCount st' = min (failCount ?st + 1) 6"
    "nextAllowedAt st' = 1005 + ms (min (15 * 2 ^ (failCount st' - 1)) 300)"
    by blast
  from r(2) fc have f1: "failCount st' = 1" by simp
  with r(3) have "nextAllowedAt st' = 16005" by (simp add: ms_def)
  with r(1) f1 have first: "\<exists>res st'. updateStatus_run demoStatusEnv 1005 (?st, 0) = Some (res, st', 0)
        \<and> failCount st' = 1 \<and> nextAllowedAt st' = 16005" by blast
  have t2: "updateStatus_try quietStatusEnv (?st3, 0)
      = Some (Inr (Updated 0 None None),
              initialStatusState\<lparr>isFetching := True, colsCache := ?cols\<rparr>, 0)"
    by (simp add: updateStatus_try_def detectColumns_def parseTableName_def resetBackoff_def
          quietStatusEnv_def demoStatusEnv_def initialStatusState_def toLowerCase_def
          toLowerChar_def Let_def)
  from backoff_transitions [where env = quietStatusEnv and st = ?st3 and sent = 0 and n = 0
      and ?st1.0 = "initialStatusState\<lparr>isFetching := True, colsCache := ?cols\<rparr>"
      and ?sent1.0 = 0 and tnow = 1005] t2
  have "updateStatus_run quietStatusEnv 1005 (?st3, 0)
      = Some (Updated 0 None None,
              initialStatusState\<lparr>isFetching := True, colsCache := ?cols\<rparr>\<lparr>isFetching := False\<rparr>, 0)"
    by blast
  then have "updateStatus_run quietStatusEnv 1005 (?st3, 0)
      = Some (Updated 0 None None, initialStatusState\<lparr>colsCache := ?cols\<rparr>, 0)"
    by (simp add: initialStatusState_def)
  with first show ?thesis by simp
qed

text \<open>
  With the exponent read on the count held after the transition, the claim as stated fails
  at the first failure: from the initial state the count becomes 1 and the wait is 15 s,
  where \<open>15 s * 2^1\<close> is 30 s. And not every refresh that completes resets the state: when
  the status table has neither \<open>id_argus\<close> nor \<open>ramal\<close>, the call returns
  \<open>{updated: 0, warning}\<close> and the backoff of the earlier failures stays as it was.
\<close>

theorem backoff_exponent_counterexample:
  "failCount (increaseBackoff 1000 initialStatusState) = 1
   \<and> nextAllowedAt (increaseBackoff 1000 initialStatusState) = 16000
   \<and> 1000 + ms (min (15 * 2 ^ failCount (increaseBackoff 1000 initialStatusState)) 300) = 31000
   \<and> (\<exists>st'. updateStatus_run warnStatusEnv 31000 (backedOffState, 0)
               = Some (Updated 0 (Some ''status table sem id_argus'') None, st', 1)
         \<and> failCount st' = 2 \<and> nextAllowedAt st' = 30500)"
proof -
  have "\<exists>st'. updateStatus_run warnStatusEnv 31000 (backedOffState, 0)
               = Some (Updated 0 (Some ''status table sem id_argus'') None, st', 1)
         \<and> failCount st' = 2 \<and> nextAllowedAt st' = 30500"
    by (simp add: updateStatus_run_def warn_try) (simp add: backedOffState_def)
  then show ?thesis
    by (simp add: increaseBackoff_def initialStatusState_def ms_def Let_def)
qed

end
